theory Spec2Isabelle
  imports Main "HOL-Library.Word"
begin

unbundle bit_operations_syntax

section \<open>rgbfix: the header fix-up engine of \<^verbatim>\<open>src/fix/main.c\<close>\<close>

text \<open>
  The development follows the C file function by function.  A C string is the list of
  its characters before the terminating NUL: reading \<^verbatim>\<open>*ptr\<close> at the end of the list
  reads the NUL.  Bytes are \<^typ>\<open>8 word\<close>, the 16-bit checksum is a \<^typ>\<open>16 word\<close>;
  sizes, offsets and the values of \<^verbatim>\<open>enum MbcType\<close> are natural numbers (none of
  them can overflow its C type: the bank count is capped at 65536 and a file at 1 GiB).
\<close>

type_synonym byte = "8 word"

named_theorems mbc \<open>the values of enum MbcType and of the feature bits\<close>

subsection \<open>\<^verbatim>\<open>enum MbcType\<close>\<close>

definition UNSPECIFIED :: nat where [mbc]: "UNSPECIFIED = 0x100"
definition BANK_SIZE :: nat where "BANK_SIZE = 0x4000"

definition ROM :: nat where [mbc]: "ROM = 0x00"
definition ROM_RAM :: nat where [mbc]: "ROM_RAM = 0x08"
definition ROM_RAM_BATTERY :: nat where [mbc]: "ROM_RAM_BATTERY = 0x09"
definition MBC1 :: nat where [mbc]: "MBC1 = 0x01"
definition MBC1_RAM :: nat where [mbc]: "MBC1_RAM = 0x02"
definition MBC1_RAM_BATTERY :: nat where [mbc]: "MBC1_RAM_BATTERY = 0x03"
definition MBC2 :: nat where [mbc]: "MBC2 = 0x05"
definition MBC2_BATTERY :: nat where [mbc]: "MBC2_BATTERY = 0x06"
definition MMM01 :: nat where [mbc]: "MMM01 = 0x0B"
definition MMM01_RAM :: nat where [mbc]: "MMM01_RAM = 0x0C"
definition MMM01_RAM_BATTERY :: nat where [mbc]: "MMM01_RAM_BATTERY = 0x0D"
definition MBC3 :: nat where [mbc]: "MBC3 = 0x11"
definition MBC3_TIMER_BATTERY :: nat where [mbc]: "MBC3_TIMER_BATTERY = 0x0F"
definition MBC3_TIMER_RAM_BATTERY :: nat where [mbc]: "MBC3_TIMER_RAM_BATTERY = 0x10"
definition MBC3_RAM :: nat where [mbc]: "MBC3_RAM = 0x12"
definition MBC3_RAM_BATTERY :: nat where [mbc]: "MBC3_RAM_BATTERY = 0x13"
definition MBC5 :: nat where [mbc]: "MBC5 = 0x19"
definition MBC5_RAM :: nat where [mbc]: "MBC5_RAM = 0x1A"
definition MBC5_RAM_BATTERY :: nat where [mbc]: "MBC5_RAM_BATTERY = 0x1B"
definition MBC5_RUMBLE :: nat where [mbc]: "MBC5_RUMBLE = 0x1C"
definition MBC5_RUMBLE_RAM :: nat where [mbc]: "MBC5_RUMBLE_RAM = 0x1D"
definition MBC5_RUMBLE_RAM_BATTERY :: nat where [mbc]: "MBC5_RUMBLE_RAM_BATTERY = 0x1E"
definition MBC6 :: nat where [mbc]: "MBC6 = 0x20"
definition MBC7_SENSOR_RUMBLE_RAM_BATTERY :: nat where
  [mbc]: "MBC7_SENSOR_RUMBLE_RAM_BATTERY = 0x22"
definition POCKET_CAMERA :: nat where [mbc]: "POCKET_CAMERA = 0xFC"
definition BANDAI_TAMA5 :: nat where [mbc]: "BANDAI_TAMA5 = 0xFD"
definition HUC3 :: nat where [mbc]: "HUC3 = 0xFE"
definition HUC1_RAM_BATTERY :: nat where [mbc]: "HUC1_RAM_BATTERY = 0xFF"

text \<open>The error values follow \<^verbatim>\<open>MBC_NONE = UNSPECIFIED\<close> in the enumeration.\<close>

definition MBC_NONE :: nat where [mbc]: "MBC_NONE = 0x100"
definition MBC_BAD :: nat where [mbc]: "MBC_BAD = 0x101"
definition MBC_WRONG_FEATURES :: nat where [mbc]: "MBC_WRONG_FEATURES = 0x102"
definition MBC_BAD_RANGE :: nat where [mbc]: "MBC_BAD_RANGE = 0x103"

text \<open>The "additional features" bits of \<^verbatim>\<open>parseMBC\<close>.\<close>

definition RAM :: byte where [mbc]: "RAM = 0x80"
definition BATTERY :: byte where [mbc]: "BATTERY = 0x40"
definition TIMER :: byte where [mbc]: "TIMER = 0x20"
definition RUMBLE :: byte where [mbc]: "RUMBLE = 0x10"
definition SENSOR :: byte where [mbc]: "SENSOR = 0x08"

subsection \<open>\<^verbatim>\<open>readMBCSlice\<close>\<close>

text \<open>
  The character \<^verbatim>\<open>readMBCSlice\<close> compares with the expected one: a lower-case letter
  is \<^verbatim>\<open>c - 'a' + 'A'\<close>, an underscore is a space.
\<close>

definition sliceChar :: "char \<Rightarrow> char" where
  "sliceChar c =
     (if (97::nat) \<le> of_char c \<and> of_char c \<le> (122::nat)
      then char_of ((of_char c :: nat) - 97 + 65)
      else if c = CHR ''_'' then CHR '' '' else c)"

text \<open>
  \<^verbatim>\<open>readMBCSlice(&name, expected)\<close>: \<open>None\<close> is the C function's \<^verbatim>\<open>false\<close>,
  \<open>Some rest\<close> is \<^verbatim>\<open>true\<close> with \<^verbatim>\<open>*name\<close> advanced to \<open>rest\<close>.
\<close>

fun readMBCSlice :: "char list \<Rightarrow> char list \<Rightarrow> char list option" where
  "readMBCSlice name [] = Some name"
| "readMBCSlice [] (e # expected) = None"
| "readMBCSlice (c # name) (e # expected) =
     (if sliceChar c \<noteq> e then None else readMBCSlice name expected)"

subsection \<open>\<^verbatim>\<open>parseMBC\<close>\<close>

text \<open>
  \<^verbatim>\<open>strtoul\<close> belongs to the C library.  \<open>strtoul0\<close> is \<^verbatim>\<open>strtoul(name, &endptr, 0)\<close>
  on a string whose first character is a decimal digit, as ISO C describes it: a
  \<^verbatim>\<open>0x\<close> or \<^verbatim>\<open>0X\<close> prefix followed by a hexadecimal digit selects base 16, another
  leading \<^verbatim>\<open>0\<close> base 8, otherwise base 10; the longest run of digits of the base is
  converted, a value that does not fit is \<^verbatim>\<open>ULONG_MAX\<close>, and \<^verbatim>\<open>endptr\<close> is the rest.
\<close>

definition ULONG_MAX :: nat where "ULONG_MAX = 2 ^ 64 - 1"

definition digitValue :: "char \<Rightarrow> nat option" where
  "digitValue c =
     (if (48::nat) \<le> of_char c \<and> of_char c \<le> (57::nat) then Some (of_char c - 48)
      else if (97::nat) \<le> of_char c \<and> of_char c \<le> (122::nat) then Some (of_char c - 97 + 10)
      else if (65::nat) \<le> of_char c \<and> of_char c \<le> (90::nat) then Some (of_char c - 65 + 10)
      else None)"

fun strtoulDigits :: "nat \<Rightarrow> char list \<Rightarrow> nat \<Rightarrow> nat \<times> char list" where
  "strtoulDigits base [] acc = (acc, [])"
| "strtoulDigits base (c # cs) acc =
     (case digitValue c of
        None \<Rightarrow> (acc, c # cs)
      | Some d \<Rightarrow> if d < base then strtoulDigits base cs (acc * base + d) else (acc, c # cs))"

definition hexPrefix :: "char list \<Rightarrow> bool" where
  "hexPrefix s =
     (case s of
        z # x # h # _ \<Rightarrow>
          z = CHR ''0'' \<and> (x = CHR ''x'' \<or> x = CHR ''X'') \<and>
          (case digitValue h of None \<Rightarrow> False | Some d \<Rightarrow> d < 16)
      | _ \<Rightarrow> False)"

definition strtoul0 :: "char list \<Rightarrow> nat \<times> char list" where
  "strtoul0 s =
     (let (v, endptr) =
        (if hexPrefix s then strtoulDigits 16 (drop 2 s) 0
         else if take 1 s = ''0'' then strtoulDigits 8 s 0
         else strtoulDigits 10 s 0)
      in (min v ULONG_MAX, endptr))"

text \<open>The two whitespace loops: space and tab, and space, tab and underscore.\<close>

definition skipBlank :: "char list \<Rightarrow> char list" where
  "skipBlank = dropWhile (\<lambda>c. c = CHR '' '' \<or> c = CHR 0x09)"

definition skipSep :: "char list \<Rightarrow> char list" where
  "skipSep = dropWhile (\<lambda>c. c = CHR '' '' \<or> c = CHR 0x09 \<or> c = CHR ''_'')"

text \<open>
  The first \<^verbatim>\<open>switch\<close>: the MBC type.  \<open>None\<close> is \<^verbatim>\<open>return MBC_BAD\<close>; otherwise the
  value of \<^verbatim>\<open>mbc\<close> and the position of \<^verbatim>\<open>ptr\<close> after the \<^verbatim>\<open>switch\<close>.
\<close>

definition readMBCDigit :: "char list \<Rightarrow> (nat \<times> char list) option" where
  "readMBCDigit ptr =
     (case ptr of
        [] \<Rightarrow> None
      | c # ptr \<Rightarrow>
          if c = CHR ''1'' then Some (MBC1, ptr)
          else if c = CHR ''2'' then Some (MBC2, ptr)
          else if c = CHR ''3'' then Some (MBC3, ptr)
          else if c = CHR ''5'' then Some (MBC5, ptr)
          else if c = CHR ''6'' then Some (MBC6, ptr)
          else if c = CHR ''7'' then Some (MBC7_SENSOR_RUMBLE_RAM_BATTERY, ptr)
          else None)"

definition readTypeMB :: "char list \<Rightarrow> (nat \<times> char list) option" where
  "readTypeMB ptr =
     (case ptr of
        [] \<Rightarrow> None
      | c # ptr \<Rightarrow> if c = CHR ''C'' \<or> c = CHR ''c'' then readMBCDigit ptr else None)"

definition readTypeM :: "char list \<Rightarrow> (nat \<times> char list) option" where
  "readTypeM ptr =
     (case ptr of
        [] \<Rightarrow> None
      | c # ptr \<Rightarrow>
          if c = CHR ''B'' \<or> c = CHR ''b'' then readTypeMB ptr
          else if c = CHR ''M'' \<or> c = CHR ''m'' then
            (case readMBCSlice ptr ''M01'' of
               None \<Rightarrow> None
             | Some ptr \<Rightarrow> Some (MMM01, ptr))
          else None)"

definition readTypeROM :: "char list \<Rightarrow> (nat \<times> char list) option" where
  "readTypeROM ptr =
     (case readMBCSlice ptr ''OM'' of
        None \<Rightarrow> None
      | Some ptr \<Rightarrow>
          (case skipSep ptr of
             [] \<Rightarrow> Some (ROM, [])
           | c # ptr \<Rightarrow>
               if c = CHR ''O'' \<or> c = CHR ''o'' then
                 (case readMBCSlice ptr ''NLY'' of
                    None \<Rightarrow> None
                  | Some ptr \<Rightarrow> Some (ROM, ptr))
               else Some (ROM, c # ptr)))"

definition readTypeHuC :: "char list \<Rightarrow> (nat \<times> char list) option" where
  "readTypeHuC ptr =
     (case readMBCSlice ptr ''UC'' of
        None \<Rightarrow> None
      | Some ptr \<Rightarrow>
          (case ptr of
             [] \<Rightarrow> None
           | c # ptr \<Rightarrow>
               if c = CHR ''1'' then Some (HUC1_RAM_BATTERY, ptr)
               else if c = CHR ''3'' then Some (HUC3, ptr)
               else None))"

definition readType :: "char list \<Rightarrow> (nat \<times> char list) option" where
  "readType ptr =
     (case ptr of
        [] \<Rightarrow> None
      | c # ptr \<Rightarrow>
          if c = CHR ''R'' \<or> c = CHR ''r'' then readTypeROM ptr
          else if c = CHR ''M'' \<or> c = CHR ''m'' then readTypeM ptr
          else if c = CHR ''P'' \<or> c = CHR ''p'' then
            (case readMBCSlice ptr ''OCKET CAMERA'' of
               None \<Rightarrow> None
             | Some ptr \<Rightarrow> Some (POCKET_CAMERA, ptr))
          else if c = CHR ''B'' \<or> c = CHR ''b'' then
            (case readMBCSlice ptr ''ANDAI TAMA5'' of
               None \<Rightarrow> None
             | Some ptr \<Rightarrow> Some (BANDAI_TAMA5, ptr))
          else if c = CHR ''T'' \<or> c = CHR ''t'' then
            (case readMBCSlice ptr ''AMA5'' of
               None \<Rightarrow> None
             | Some ptr \<Rightarrow> Some (BANDAI_TAMA5, ptr))
          else if c = CHR ''H'' \<or> c = CHR ''h'' then readTypeHuC ptr
          else None)"

text \<open>
  The \<^verbatim>\<open>switch\<close> inside the features loop: one feature name, giving the bit it sets.
\<close>

definition readFeatureRA :: "char list \<Rightarrow> (byte \<times> char list) option" where
  "readFeatureRA ptr =
     (case ptr of
        [] \<Rightarrow> None
      | m # ptr \<Rightarrow> if m \<noteq> CHR ''M'' \<and> m \<noteq> CHR ''m'' then None else Some (RAM, ptr))"

definition readFeatureR :: "char list \<Rightarrow> (byte \<times> char list) option" where
  "readFeatureR ptr =
     (case ptr of
        [] \<Rightarrow> None
      | c # ptr \<Rightarrow>
          if c = CHR ''U'' \<or> c = CHR ''u'' then
            (case readMBCSlice ptr ''MBLE'' of
               None \<Rightarrow> None
             | Some ptr \<Rightarrow> Some (RUMBLE, ptr))
          else if c = CHR ''A'' \<or> c = CHR ''a'' then readFeatureRA ptr
          else None)"

definition readFeature :: "char list \<Rightarrow> (byte \<times> char list) option" where
  "readFeature ptr =
     (case ptr of
        [] \<Rightarrow> None
      | c # ptr \<Rightarrow>
          if c = CHR ''B'' \<or> c = CHR ''b'' then
            (case readMBCSlice ptr ''ATTERY'' of
               None \<Rightarrow> None
             | Some ptr \<Rightarrow> Some (BATTERY, ptr))
          else if c = CHR ''R'' \<or> c = CHR ''r'' then readFeatureR ptr
          else if c = CHR ''S'' \<or> c = CHR ''s'' then
            (case readMBCSlice ptr ''ENSOR'' of
               None \<Rightarrow> None
             | Some ptr \<Rightarrow> Some (SENSOR, ptr))
          else if c = CHR ''T'' \<or> c = CHR ''t'' then
            (case readMBCSlice ptr ''IMER'' of
               None \<Rightarrow> None
             | Some ptr \<Rightarrow> Some (TIMER, ptr))
          else None)"

lemma readMBCSlice_length:
  "readMBCSlice name expected = Some rest \<Longrightarrow> length rest \<le> length name"
  by (induction name expected rule: readMBCSlice.induct) (auto split: if_splits)

lemma readFeatureRA_length:
  "readFeatureRA ptr = Some (b, rest) \<Longrightarrow> length rest < length ptr"
  unfolding readFeatureRA_def
  by (cases ptr) (simp_all split: if_splits)

lemma readFeatureR_length:
  "readFeatureR ptr = Some (b, rest) \<Longrightarrow> length rest < length ptr"
  unfolding readFeatureR_def
  apply (cases ptr)
   apply simp
  apply (simp split: if_splits option.splits)
   apply (drule readMBCSlice_length, simp)
  apply (drule readFeatureRA_length, simp)
  done

lemma readFeature_length:
  "readFeature ptr = Some (b, rest) \<Longrightarrow> length rest < length ptr"
  unfolding readFeature_def
  apply (cases ptr)
   apply simp
  apply (simp split: if_splits option.splits)
     apply (drule readMBCSlice_length, simp)
    apply (drule readFeatureR_length, simp)
   apply (drule readMBCSlice_length, simp)
  apply (drule readMBCSlice_length, simp)
  done

lemma skipSep_length: "length (skipSep ptr) \<le> length ptr"
  by (simp add: skipSep_def length_dropWhile_le)

text \<open>
  The \<^verbatim>\<open>for (;;)\<close> loop reading the features: \<open>None\<close> is \<^verbatim>\<open>return MBC_BAD\<close>,
  otherwise the features read and \<^verbatim>\<open>ptr\<close> at the \<^verbatim>\<open>break\<close>.
\<close>

function readFeatures :: "char list \<Rightarrow> byte \<Rightarrow> (byte \<times> char list) option" where
  "readFeatures ptr features =
     (case skipSep ptr of
        [] \<Rightarrow> Some (features, [])
      | c # ptr1 \<Rightarrow>
          if c \<noteq> CHR ''+'' then None
          else
            (case readFeature (skipSep ptr1) of
               None \<Rightarrow> None
             | Some (b, ptr2) \<Rightarrow> readFeatures ptr2 (features OR b)))"
  by pat_completeness auto
termination
proof (relation "measure (\<lambda>(ptr, features). length ptr)")
  show "wf (measure (\<lambda>(ptr, features). length ptr))"
    by simp
next
  fix ptr :: "char list" and features :: byte and c ptr1 x b ptr2
  assume sk: "skipSep ptr = c # ptr1"
    and rf: "readFeature (skipSep ptr1) = Some x"
    and x: "(b, ptr2) = x"
  from rf x have "length ptr2 < length (skipSep ptr1)"
    using readFeature_length [of "skipSep ptr1" b ptr2] by simp
  also have "\<dots> \<le> length ptr1"
    by (rule skipSep_length)
  also have "\<dots> < length (skipSep ptr)"
    by (simp add: sk)
  also have "\<dots> \<le> length ptr"
    by (rule skipSep_length)
  finally show "((ptr2, features OR b), (ptr, features)) \<in> measure (\<lambda>(ptr, features). length ptr)"
    by simp
qed

declare readFeatures.simps [simp del]

text \<open>
  The second \<^verbatim>\<open>switch\<close>: the features against the type.  \<open>Inl e\<close> is \<^verbatim>\<open>return e\<close>
  from inside the \<^verbatim>\<open>switch\<close>, \<open>Inr mbc\<close> is a \<^verbatim>\<open>break\<close> with the new \<^verbatim>\<open>mbc\<close>.
  The \<^verbatim>\<open>ROM\<close> case falls through to \<^verbatim>\<open>MBC1\<close> with \<^verbatim>\<open>mbc = ROM_RAM - 1\<close>.
\<close>

definition checkFeatures :: "nat \<Rightarrow> byte \<Rightarrow> nat + nat" where
  "checkFeatures mbc features =
     (if mbc = ROM \<and> features = 0 then Inr mbc
      else if mbc = ROM \<or> mbc = MBC1 \<or> mbc = MMM01 then
        (let mbc = (if mbc = ROM then ROM_RAM - 1 else mbc) in
         if features = RAM then Inr (mbc + 1)
         else if features = (RAM OR BATTERY) then Inr (mbc + 2)
         else if features \<noteq> 0 then Inl MBC_WRONG_FEATURES
         else Inr mbc)
      else if mbc = MBC2 then
        (if features = BATTERY then Inr MBC2_BATTERY
         else if features \<noteq> 0 then Inl MBC_WRONG_FEATURES
         else Inr mbc)
      else if mbc = MBC3 then
        (let (features, mbc) =
           (if features AND (TIMER AND BATTERY) \<noteq> 0
            then (features AND NOT (TIMER OR BATTERY), MBC3_TIMER_BATTERY)
            else (features, mbc))
         in
         if features = RAM then Inr (mbc + 1)
         else if features = (RAM OR BATTERY) then Inr (mbc + 2)
         else if features \<noteq> 0 then Inl MBC_WRONG_FEATURES
         else Inr mbc)
      else if mbc = MBC5 then
        (let (features, mbc) =
           (if features AND RUMBLE \<noteq> 0
            then (features AND NOT RUMBLE, MBC5_RUMBLE)
            else (features, mbc))
         in
         if features = RAM then Inr (mbc + 1)
         else if features = (RAM OR BATTERY) then Inr (mbc + 2)
         else if features \<noteq> 0 then Inl MBC_WRONG_FEATURES
         else Inr mbc)
      else if mbc = MBC6 \<or> mbc = POCKET_CAMERA \<or> mbc = BANDAI_TAMA5 \<or> mbc = HUC3 then
        (if features \<noteq> 0 then Inl MBC_WRONG_FEATURES else Inr mbc)
      else if mbc = MBC7_SENSOR_RUMBLE_RAM_BATTERY then
        (if features \<noteq> (SENSOR OR RUMBLE OR RAM OR BATTERY)
         then Inl MBC_WRONG_FEATURES else Inr mbc)
      else if mbc = HUC1_RAM_BATTERY then
        (if features \<noteq> (RAM OR BATTERY) then Inl MBC_WRONG_FEATURES else Inr mbc)
      else Inr mbc)"

text \<open>The symbolic branch of \<^verbatim>\<open>parseMBC\<close> (a name that does not start with a digit).\<close>

definition parseMBCName :: "char list \<Rightarrow> nat" where
  "parseMBCName name =
     (case readType (skipBlank name) of
        None \<Rightarrow> MBC_BAD
      | Some (mbc, ptr) \<Rightarrow>
          (case readFeatures ptr 0 of
             None \<Rightarrow> MBC_BAD
           | Some (features, ptr) \<Rightarrow>
               (case checkFeatures mbc features of
                  Inl e \<Rightarrow> e
                | Inr mbc \<Rightarrow> if skipBlank ptr \<noteq> [] then MBC_BAD else mbc)))"

definition isDigit :: "char \<Rightarrow> bool" where
  "isDigit c \<longleftrightarrow> (48::nat) \<le> of_char c \<and> of_char c \<le> (57::nat)"

definition numeric :: "char list \<Rightarrow> bool" where
  "numeric name = (case name of [] \<Rightarrow> False | c # _ \<Rightarrow> isDigit c)"

definition parseMBC :: "char list \<Rightarrow> nat" where
  "parseMBC name =
     (if numeric name then
        (let (mbc, endptr) = strtoul0 name in
         if endptr \<noteq> [] then MBC_BAD
         else if mbc > 0xFF then MBC_BAD_RANGE
         else mbc)
      else parseMBCName name)"

subsection \<open>\<^verbatim>\<open>mbcName\<close>\<close>

text \<open>\<open>None\<close> is \<^verbatim>\<open>unreachable_()\<close>: the value has no name.\<close>

definition mbcName :: "nat \<Rightarrow> char list option" where
  "mbcName type =
     (if type = ROM then Some ''ROM''
      else if type = ROM_RAM then Some ''ROM+RAM''
      else if type = ROM_RAM_BATTERY then Some ''ROM+RAM+BATTERY''
      else if type = MBC1 then Some ''MBC1''
      else if type = MBC1_RAM then Some ''MBC1+RAM''
      else if type = MBC1_RAM_BATTERY then Some ''MBC1+RAM+BATTERY''
      else if type = MBC2 then Some ''MBC2''
      else if type = MBC2_BATTERY then Some ''MBC2+BATTERY''
      else if type = MMM01 then Some ''MMM01''
      else if type = MMM01_RAM then Some ''MMM01+RAM''
      else if type = MMM01_RAM_BATTERY then Some ''MMM01+RAM+BATTERY''
      else if type = MBC3 then Some ''MBC3''
      else if type = MBC3_TIMER_BATTERY then Some ''MBC3+TIMER+BATTERY''
      else if type = MBC3_TIMER_RAM_BATTERY then Some ''MBC3+TIMER+RAM+BATTERY''
      else if type = MBC3_RAM then Some ''MBC3+RAM''
      else if type = MBC3_RAM_BATTERY then Some ''MBC3+RAM+BATTERY''
      else if type = MBC5 then Some ''MBC5''
      else if type = MBC5_RAM then Some ''MBC5+RAM''
      else if type = MBC5_RAM_BATTERY then Some ''MBC5+RAM+BATTERY''
      else if type = MBC5_RUMBLE then Some ''MBC5+RUMBLE''
      else if type = MBC5_RUMBLE_RAM then Some ''MBC5+RUMBLE+RAM''
      else if type = MBC5_RUMBLE_RAM_BATTERY then Some ''MBC5+RUMBLE+RAM+BATTERY''
      else if type = MBC6 then Some ''MBC6''
      else if type = MBC7_SENSOR_RUMBLE_RAM_BATTERY then Some ''MBC7+SENSOR+RUMBLE+RAM+BATTERY''
      else if type = POCKET_CAMERA then Some ''POCKET CAMERA''
      else if type = BANDAI_TAMA5 then Some ''BANDAI TAMA5''
      else if type = HUC3 then Some ''HUC3''
      else if type = HUC1_RAM_BATTERY then Some ''HUC1+RAM+BATTERY''
      else None)"


subsection \<open>Spec strings that differ only by letter case or underscore/space\<close>





section \<open>\<^verbatim>\<open>processFile\<close>: the pass over one ROM image\<close>

subsection \<open>The configuration: the global variables the options set\<close>

datatype Model = DMG | BOTH | CGB

definition FIX_LOGO :: byte where "FIX_LOGO = 0x80"
definition TRASH_LOGO :: byte where "TRASH_LOGO = 0x40"
definition FIX_HEADER_SUM :: byte where "FIX_HEADER_SUM = 0x20"
definition TRASH_HEADER_SUM :: byte where "TRASH_HEADER_SUM = 0x10"
definition FIX_GLOBAL_SUM :: byte where "FIX_GLOBAL_SUM = 0x08"
definition TRASH_GLOBAL_SUM :: byte where "TRASH_GLOBAL_SUM = 0x04"

lemmas fix_defs =
  FIX_LOGO_def TRASH_LOGO_def FIX_HEADER_SUM_def TRASH_HEADER_SUM_def
  FIX_GLOBAL_SUM_def TRASH_GLOBAL_SUM_def

text \<open>
  A string option (\<^verbatim>\<open>title\<close>, \<^verbatim>\<open>gameID\<close>, \<^verbatim>\<open>newLicensee\<close>) is \<open>None\<close> for the
  \<^verbatim>\<open>NULL\<close> pointer and otherwise holds the bytes that are copied: the first
  \<^verbatim>\<open>titleLen\<close>, \<^verbatim>\<open>gameIDLen\<close>, \<^verbatim>\<open>newLicenseeLen\<close> bytes of the argument.  The
  \<^verbatim>\<open>uint16_t\<close> options hold a byte value or \<^verbatim>\<open>UNSPECIFIED\<close>.
\<close>

record config =
  model :: Model
  fixSpec :: byte
  gameID :: "byte list option"
  japanese :: bool
  newLicensee :: "byte list option"
  oldLicensee :: nat
  cartridgeType :: nat
  romVersion :: nat
  padValue :: nat
  ramSize :: nat
  sgb :: bool
  title :: "byte list option"

definition optLen :: "byte list option \<Rightarrow> nat" where
  "optLen s = (case s of None \<Rightarrow> 0 | Some bs \<Rightarrow> length bs)"

text \<open>
  What \<^verbatim>\<open>main\<close> guarantees of the configuration: it truncates the title to at most 16
  bytes, the game ID to 4 and the new licensee to 2, and \<^verbatim>\<open>parseByte\<close> stores no
  value above 255 (so that \<^verbatim>\<open>padValue\<close> is a byte or \<^verbatim>\<open>UNSPECIFIED\<close>).
\<close>

definition config_ok :: "config \<Rightarrow> bool" where
  "config_ok cfg \<longleftrightarrow>
     optLen (title cfg) \<le> 16 \<and> optLen (gameID cfg) \<le> 4 \<and> optLen (newLicensee cfg) \<le> 2 \<and>
     padValue cfg \<le> UNSPECIFIED"

definition ninLogo :: "byte list" where
  "ninLogo =
     [0xCE, 0xED, 0x66, 0x66, 0xCC, 0x0D, 0x00, 0x0B,
      0x03, 0x73, 0x00, 0x83, 0x00, 0x0C, 0x00, 0x0D,
      0x00, 0x08, 0x11, 0x1F, 0x88, 0x89, 0x00, 0x0E,
      0xDC, 0xCC, 0x6E, 0xE6, 0xDD, 0xDD, 0xD9, 0x99,
      0xBB, 0xBB, 0x67, 0x63, 0x6E, 0x0E, 0xEC, 0xCC,
      0xDD, 0xDC, 0x99, 0x9F, 0xBB, 0xB9, 0x33, 0x3E]"

subsection \<open>\<^verbatim>\<open>report\<close> and the state of one run\<close>

text \<open>
  The messages \<^verbatim>\<open>report\<close> prints in the model.  The model covers the runs in which
  \<^verbatim>\<open>read\<close>, \<^verbatim>\<open>write\<close>, \<^verbatim>\<open>lseek\<close> and \<^verbatim>\<open>realloc\<close> succeed, so the messages for
  their failures do not occur in \<^verbatim>\<open>processFile\<close>.
\<close>

datatype message = TooShort nat | TooManyBanks | OpenFailed | StatFailed | NotRegularFile

text \<open>
  What is done to the output descriptor: \<^verbatim>\<open>lseek(output, 0, SEEK_SET)\<close>,
  \<^verbatim>\<open>lseek(output, 0, SEEK_END)\<close>, and a call of \<^verbatim>\<open>writeBytes\<close> with the bytes it writes.
\<close>

datatype io = Rewind | SeekEnd | WriteBytes "byte list"

record state =
  nbErrors :: byte
  stderr :: "message list"
  outOps :: "io list"
  aborted :: bool

definition report :: "message \<Rightarrow> state \<Rightarrow> state" where
  "report msg st =
     st\<lparr>stderr := stderr st @ [msg],
        nbErrors := (if nbErrors st \<noteq> 0xFF then nbErrors st + 1 else nbErrors st)\<rparr>"

subsection \<open>The header edits\<close>

text \<open>
  \<^verbatim>\<open>memcpy(&rom0[off], src, len)\<close> on the bytes of \<^verbatim>\<open>rom0\<close> that were read.  Every copy
  of \<^verbatim>\<open>processFile\<close> ends below 0x150, inside what was read.
\<close>

fun memcpy :: "byte list \<Rightarrow> nat \<Rightarrow> byte list \<Rightarrow> byte list" where
  "memcpy buf off [] = buf"
| "memcpy buf off (b # src) = memcpy (buf[off := b]) (Suc off) src"

definition editLogo :: "config \<Rightarrow> byte list \<Rightarrow> byte list" where
  "editLogo cfg rom0 =
     (if fixSpec cfg AND (FIX_LOGO OR TRASH_LOGO) \<noteq> 0 then
        (if fixSpec cfg AND FIX_LOGO \<noteq> 0 then memcpy rom0 0x104 ninLogo
         else memcpy rom0 0x104 (map (\<lambda>b. NOT b) ninLogo))
      else rom0)"

definition editTitle :: "config \<Rightarrow> byte list \<Rightarrow> byte list" where
  "editTitle cfg rom0 = (case title cfg of None \<Rightarrow> rom0 | Some t \<Rightarrow> memcpy rom0 0x134 t)"

definition editGameID :: "config \<Rightarrow> byte list \<Rightarrow> byte list" where
  "editGameID cfg rom0 = (case gameID cfg of None \<Rightarrow> rom0 | Some g \<Rightarrow> memcpy rom0 0x13f g)"

definition editModel :: "config \<Rightarrow> byte list \<Rightarrow> byte list" where
  "editModel cfg rom0 =
     (if model cfg \<noteq> DMG then rom0[0x143 := (if model cfg = BOTH then 0x80 else 0xc0)]
      else rom0)"

definition editNewLicensee :: "config \<Rightarrow> byte list \<Rightarrow> byte list" where
  "editNewLicensee cfg rom0 =
     (case newLicensee cfg of None \<Rightarrow> rom0 | Some l \<Rightarrow> memcpy rom0 0x144 l)"

definition editSgb :: "config \<Rightarrow> byte list \<Rightarrow> byte list" where
  "editSgb cfg rom0 = (if sgb cfg then rom0[0x146 := 0x03] else rom0)"

definition editCartridgeType :: "config \<Rightarrow> byte list \<Rightarrow> byte list" where
  "editCartridgeType cfg rom0 =
     (if cartridgeType cfg < MBC_NONE then rom0[0x147 := of_nat (cartridgeType cfg)] else rom0)"

definition editRamSize :: "config \<Rightarrow> byte list \<Rightarrow> byte list" where
  "editRamSize cfg rom0 =
     (if ramSize cfg \<noteq> UNSPECIFIED then rom0[0x149 := of_nat (ramSize cfg)] else rom0)"

definition editJapanese :: "config \<Rightarrow> byte list \<Rightarrow> byte list" where
  "editJapanese cfg rom0 = (if \<not> japanese cfg then rom0[0x14a := 0x01] else rom0)"

definition editOldLicensee :: "config \<Rightarrow> byte list \<Rightarrow> byte list" where
  "editOldLicensee cfg rom0 =
     (if oldLicensee cfg \<noteq> UNSPECIFIED then rom0[0x14b := of_nat (oldLicensee cfg)] else rom0)"

definition editRomVersion :: "config \<Rightarrow> byte list \<Rightarrow> byte list" where
  "editRomVersion cfg rom0 =
     (if romVersion cfg \<noteq> UNSPECIFIED then rom0[0x14c := of_nat (romVersion cfg)] else rom0)"

text \<open>The edits in the order of the source.\<close>

definition applyEdits :: "config \<Rightarrow> byte list \<Rightarrow> byte list" where
  "applyEdits cfg rom0 =
     editRomVersion cfg (editOldLicensee cfg (editJapanese cfg (editRamSize cfg
       (editCartridgeType cfg (editSgb cfg (editNewLicensee cfg (editModel cfg
         (editGameID cfg (editTitle cfg (editLogo cfg rom0))))))))))"

subsection \<open>The ROMX banks\<close>

text \<open>\<^verbatim>\<open>globalSum += b\<close> for every byte of a buffer, in 16 bits.\<close>

definition addBytes :: "byte list \<Rightarrow> 16 word \<Rightarrow> 16 word" where
  "addBytes bs globalSum = fold (\<lambda>b s. s + ucast b) bs globalSum"

text \<open>
  The loop that copies ROMX from a pipe.  \<open>inp\<close> is what the input still holds,
  \<open>romx\<close> the buffer (its length is \<^verbatim>\<open>totalRomxLen\<close>); \<^verbatim>\<open>readBytes\<close> returns the next
  \<^verbatim>\<open>BANK_SIZE\<close> bytes, or fewer at the end of the input.
\<close>

function readRomx ::
  "byte list \<Rightarrow> byte list \<Rightarrow> nat \<Rightarrow> 16 word \<Rightarrow> message + (byte list \<times> nat \<times> 16 word)" where
  "readRomx inp romx nbBanks globalSum =
     (let bank = take BANK_SIZE inp; bankLen = length bank in
      if bankLen \<noteq> 0 then
        (if nbBanks = 0x10000 then Inl TooManyBanks
         else if bankLen \<noteq> BANK_SIZE
           then Inr (romx @ bank, nbBanks + 1, addBytes bank globalSum)
           else readRomx (drop BANK_SIZE inp) (romx @ bank) (nbBanks + 1) (addBytes bank globalSum))
      else Inr (romx, nbBanks, globalSum))"
  by pat_completeness auto
termination
  by (relation "measure (\<lambda>(inp, romx, nbBanks, globalSum). length inp)")
     (simp_all add: BANK_SIZE_def)

declare readRomx.simps [simp del]

text \<open>
  "Handle ROMX": \<open>Inl\<close> is the report before \<^verbatim>\<open>return\<close>; otherwise \<^verbatim>\<open>romx\<close> (\<open>None\<close>
  is \<^verbatim>\<open>NULL\<close>), \<^verbatim>\<open>nbBanks\<close>, \<^verbatim>\<open>totalRomxLen\<close> and \<^verbatim>\<open>globalSum\<close>.  With equal descriptors
  \<^verbatim>\<open>fileSize\<close> is the size of the file.
\<close>

definition handleRomx ::
  "bool \<Rightarrow> byte list \<Rightarrow> nat \<Rightarrow> message + (byte list option \<times> nat \<times> nat \<times> 16 word)" where
  "handleRomx sameFd file rom0Len =
     (if sameFd then
        (let fileSize = length file in
         if fileSize \<ge> 0x10000 * BANK_SIZE then Inl TooManyBanks
         else Inr (None, (fileSize + (BANK_SIZE - 1)) div BANK_SIZE,
                   (if fileSize \<ge> BANK_SIZE then fileSize - BANK_SIZE else 0), 0))
      else if rom0Len = BANK_SIZE then
        (case readRomx (drop BANK_SIZE file) [] 1 0 of
           Inl e \<Rightarrow> Inl e
         | Inr (romx, nbBanks, globalSum) \<Rightarrow> Inr (Some romx, nbBanks, length romx, globalSum))
      else Inr (None, 1, 0, 0))"

subsection \<open>Padding\<close>

text \<open>
  Modelled from the spec: \<^verbatim>\<open>helpers.h\<close>, which defines the macros \<^verbatim>\<open>clz\<close> and \<^verbatim>\<open>ctz\<close>,
  is not among the sources.  They count the leading and the trailing zero bits of a
  non-zero \<^verbatim>\<open>unsigned int\<close> of 32 bits (the compiler's builtins), which is what makes
  the bank count "rounded up to the next power of two" and the ROM size
  "log2(bankCount/2)".
\<close>

fun bitlen :: "nat \<Rightarrow> nat" where
  "bitlen n = (if n = 0 then 0 else Suc (bitlen (n div 2)))"

declare bitlen.simps [simp del]

definition clz :: "nat \<Rightarrow> nat" where
  "clz n = 32 - bitlen n"

fun ctz :: "nat \<Rightarrow> nat" where
  "ctz n = (if n = 0 \<or> odd n then 0 else Suc (ctz (n div 2)))"

declare ctz.simps [simp del]

text \<open>
  "Handle setting the ROM size if padding was requested": \<open>None\<close> is a failed
  \<^verbatim>\<open>assert\<close>, otherwise \<^verbatim>\<open>rom0\<close> (its length is \<^verbatim>\<open>rom0Len\<close>), \<^verbatim>\<open>nbBanks\<close> and
  \<^verbatim>\<open>globalSum\<close> after the block.
\<close>

definition padRom ::
  "config \<Rightarrow> byte list \<Rightarrow> nat \<Rightarrow> nat \<Rightarrow> 16 word \<Rightarrow> (byte list \<times> nat \<times> 16 word) option" where
  "padRom cfg rom0 nbBanks totalRomxLen globalSum =
     (if padValue cfg \<noteq> UNSPECIFIED then
        (if nbBanks \<noteq> 1 \<and> length rom0 \<noteq> BANK_SIZE then None
         else
           (let (rom0, nbBanks) =
              (if nbBanks = 1 then
                 ((if length rom0 \<noteq> BANK_SIZE
                   then rom0 @ replicate (BANK_SIZE - length rom0) (of_nat (padValue cfg))
                   else rom0), 2)
               else (rom0, nbBanks))
            in
            if nbBanks < 2 then None
            else
              (let nbBanks =
                 (if nbBanks AND (nbBanks - 1) \<noteq> 0 then 2 ^ (32 - clz nbBanks) else nbBanks);
                 rom0 = rom0[0x148 := of_nat (ctz (nbBanks div 2))];
                 globalSum =
                   globalSum + of_nat (padValue cfg * ((nbBanks - 1) * BANK_SIZE - totalRomxLen))
               in Some (rom0, nbBanks, globalSum))))
      else Some (rom0, nbBanks, globalSum))"

subsection \<open>The checksums\<close>

text \<open>\<^verbatim>\<open>for (i = 0x134; i < 0x14d; i++) sum -= rom0[i] + 1;\<close>\<close>

definition headerSum :: "byte list \<Rightarrow> byte" where
  "headerSum rom0 = fold (\<lambda>i sum. sum - (rom0 ! i + 1)) [0x134..<0x14d] 0"

definition fixHeaderSum :: "config \<Rightarrow> byte list \<Rightarrow> byte list" where
  "fixHeaderSum cfg rom0 =
     (if fixSpec cfg AND (FIX_HEADER_SUM OR TRASH_HEADER_SUM) \<noteq> 0 then
        rom0[0x14d :=
          (if fixSpec cfg AND TRASH_HEADER_SUM \<noteq> 0 then NOT (headerSum rom0) else headerSum rom0)]
      else rom0)"

text \<open>
  The loop that sums the rest of a regular file, one bank at a time; \<open>inp\<close> is what
  the file holds after the position of the descriptor.
\<close>

function sumRest :: "byte list \<Rightarrow> 16 word \<Rightarrow> 16 word" where
  "sumRest inp globalSum =
     (let bank = take BANK_SIZE inp; globalSum = addBytes bank globalSum in
      if length bank \<noteq> BANK_SIZE then globalSum else sumRest (drop BANK_SIZE inp) globalSum)"
  by pat_completeness auto
termination
  by (relation "measure (\<lambda>(inp, globalSum). length inp)") (simp_all add: BANK_SIZE_def)

declare sumRest.simps [simp del]

text \<open>
  The global checksum; \<open>rest\<close> is what a regular file holds after the bytes read
  into \<^verbatim>\<open>rom0\<close>.
\<close>

definition fixGlobalSum :: "config \<Rightarrow> bool \<Rightarrow> byte list \<Rightarrow> byte list \<Rightarrow> 16 word \<Rightarrow> byte list" where
  "fixGlobalSum cfg sameFd rest rom0 globalSum =
     (if fixSpec cfg AND (FIX_GLOBAL_SUM OR TRASH_GLOBAL_SUM) \<noteq> 0 then
        (let rom0 = rom0[0x14e := 0];
             rom0 = rom0[0x14f := 0];
             globalSum = addBytes rom0 globalSum;
             globalSum = (if sameFd then sumRest rest globalSum else globalSum);
             globalSum = (if fixSpec cfg AND TRASH_GLOBAL_SUM \<noteq> 0 then NOT globalSum else globalSum);
             rom0 = rom0[0x14e := ucast (drop_bit 8 globalSum)];
             rom0 = rom0[0x14f := ucast (globalSum AND 0xff)]
         in rom0)
      else rom0)"

subsection \<open>Writing back\<close>

text \<open>The loop that writes the padding, at most one bank in each call.\<close>

function writePadding :: "nat \<Rightarrow> byte \<Rightarrow> io list" where
  "writePadding len v =
     (if len = 0 then []
      else
        (let thisLen = (if len > BANK_SIZE then BANK_SIZE else len)
         in WriteBytes (replicate thisLen v) # writePadding (len - thisLen) v))"
  by pat_completeness auto
termination
  by (relation "measure (\<lambda>(len, v). len)") (simp_all add: BANK_SIZE_def)

declare writePadding.simps [simp del]

definition writeBack ::
  "config \<Rightarrow> bool \<Rightarrow> byte list \<Rightarrow> byte list option \<Rightarrow> nat \<Rightarrow> nat \<Rightarrow> io list" where
  "writeBack cfg sameFd rom0 romx nbBanks totalRomxLen =
     (if sameFd then [Rewind] else []) @
     [WriteBytes
        (take (if sameFd \<and> padValue cfg = UNSPECIFIED then 0x150 else length rom0) rom0)] @
     (case romx of None \<Rightarrow> [] | Some r \<Rightarrow> [WriteBytes (take totalRomxLen r)]) @
     (if padValue cfg \<noteq> UNSPECIFIED then
        (if sameFd then [SeekEnd] else []) @
        writePadding ((nbBanks - 1) * BANK_SIZE - totalRomxLen) (of_nat (padValue cfg))
      else [])"

subsection \<open>\<^verbatim>\<open>processFile\<close> and \<^verbatim>\<open>processFilename\<close>\<close>

text \<open>
  \<open>sameFd\<close> says that \<^verbatim>\<open>input == output\<close>: then \<open>file\<close> is the regular file and
  \<^verbatim>\<open>fileSize\<close> its size; otherwise \<open>file\<close> is what the input pipe delivers and
  \<^verbatim>\<open>fileSize\<close> is 0.  The first \<^verbatim>\<open>assert\<close> fails on an empty regular file.
\<close>

definition processFile :: "config \<Rightarrow> bool \<Rightarrow> byte list \<Rightarrow> state \<Rightarrow> state" where
  "processFile cfg sameFd file st =
     (if sameFd \<and> length file = 0 then st\<lparr>aborted := True\<rparr>
      else
        (let rom0 = take BANK_SIZE file in
         if length rom0 < 0x150 then report (TooShort (length rom0)) st
         else
           (let rom0 = applyEdits cfg rom0 in
            case handleRomx sameFd file (length rom0) of
              Inl e \<Rightarrow> report e st
            | Inr (romx, nbBanks, totalRomxLen, globalSum) \<Rightarrow>
                (case padRom cfg rom0 nbBanks totalRomxLen globalSum of
                   None \<Rightarrow> st\<lparr>aborted := True\<rparr>
                 | Some (rom0, nbBanks, globalSum) \<Rightarrow>
                     (let rom0 = fixHeaderSum cfg rom0;
                          rom0 = fixGlobalSum cfg sameFd (drop BANK_SIZE file) rom0 globalSum
                      in st\<lparr>outOps :=
                           outOps st @ writeBack cfg sameFd rom0 romx nbBanks totalRomxLen\<rparr>)))))"

text \<open>
  What \<^verbatim>\<open>processFilename\<close> finds under a name: the standard streams for \<^verbatim>\<open>-\<close>, a name
  that cannot be opened, a descriptor that cannot be examined, something that is not a
  regular file, or a regular file with its contents.
\<close>

datatype target = Stdin "byte list" | OpenFails | StatFails | NotRegular | Regular "byte list"

definition processFilename :: "config \<Rightarrow> target \<Rightarrow> state \<Rightarrow> bool \<times> state" where
  "processFilename cfg name st0 =
     (let st = st0\<lparr>nbErrors := 0\<rparr>;
          st =
            (case name of
               Stdin inp \<Rightarrow> processFile cfg False inp st
             | OpenFails \<Rightarrow> report OpenFailed st
             | StatFails \<Rightarrow> report StatFailed st
             | NotRegular \<Rightarrow> report NotRegularFile st
             | Regular file \<Rightarrow>
                 if length file < 0x150 then report (TooShort (length file)) st
                 else processFile cfg True file st)
      in (nbErrors st \<noteq> 0, st))"

subsection \<open>The image after the run\<close>

text \<open>
  The effect of the operations on the output: its contents and the position of the
  descriptor.  With equal descriptors the output starts as the file (the first
  operation is then \<open>Rewind\<close>, so the position it starts from does not matter); a pipe
  starts empty.
\<close>

fun runIO :: "io \<Rightarrow> byte list \<times> nat \<Rightarrow> byte list \<times> nat" where
  "runIO Rewind (d, pos) = (d, 0)"
| "runIO SeekEnd (d, pos) = (d, length d)"
| "runIO (WriteBytes bs) (d, pos) = (take pos d @ bs @ drop (pos + length bs) d, pos + length bs)"

definition outputImage :: "bool \<Rightarrow> byte list \<Rightarrow> io list \<Rightarrow> byte list" where
  "outputImage sameFd file ops = fst (fold runIO ops (if sameFd then file else [], 0))"

definition initState :: state where
  "initState = \<lparr>nbErrors = 0, stderr = [], outOps = [], aborted = False\<rparr>"


subsection \<open>Notions the statements use\<close>

text \<open>The initial values of the global variables: no option given.\<close>

definition defaultConfig :: config where
  "defaultConfig =
     \<lparr>model = DMG, fixSpec = 0, gameID = None, japanese = True, newLicensee = None,
      oldLicensee = UNSPECIFIED, cartridgeType = MBC_NONE, romVersion = UNSPECIFIED,
      padValue = UNSPECIFIED, ramSize = UNSPECIFIED, sgb = False, title = None\<rparr>"

text \<open>The number of banks that \<open>n\<close> bytes occupy: \<open>n\<close> divided by \<^verbatim>\<open>BANK_SIZE\<close>, rounded up.\<close>

definition banks :: "nat \<Rightarrow> nat" where
  "banks n = (n + (BANK_SIZE - 1)) div BANK_SIZE"

text \<open>The value of \<^verbatim>\<open>nbBanks\<close> after the padding block, as a function of its value before: at least two banks, then the test \<^verbatim>\<open>nbBanks & (nbBanks - 1)\<close> and the shift of the source.\<close>

definition padTarget :: "nat \<Rightarrow> nat" where
  "padTarget nb =
     (let n = (if nb = 1 then 2 else nb)
      in if n AND (n - 1) \<noteq> 0 then 2 ^ (32 - clz n) else n)"

text \<open>The offsets the configuration lets the run change: the logo when a logo fix or trash is requested, the bytes of each option that is set, the ROM size when padding is requested, and the checksum bytes when their fix or trash is requested.\<close>

definition mayChange :: "config \<Rightarrow> nat \<Rightarrow> bool" where
  "mayChange cfg i \<longleftrightarrow>
     (fixSpec cfg AND (FIX_LOGO OR TRASH_LOGO) \<noteq> 0 \<and> 0x104 \<le> i \<and> i < 0x134) \<or>
     (0x134 \<le> i \<and> i < 0x134 + optLen (title cfg)) \<or>
     (0x13f \<le> i \<and> i < 0x13f + optLen (gameID cfg)) \<or>
     (model cfg \<noteq> DMG \<and> i = 0x143) \<or>
     (0x144 \<le> i \<and> i < 0x144 + optLen (newLicensee cfg)) \<or>
     (sgb cfg \<and> i = 0x146) \<or>
     (cartridgeType cfg < MBC_NONE \<and> i = 0x147) \<or>
     (padValue cfg \<noteq> UNSPECIFIED \<and> i = 0x148) \<or>
     (ramSize cfg \<noteq> UNSPECIFIED \<and> i = 0x149) \<or>
     (\<not> japanese cfg \<and> i = 0x14a) \<or>
     (oldLicensee cfg \<noteq> UNSPECIFIED \<and> i = 0x14b) \<or>
     (romVersion cfg \<noteq> UNSPECIFIED \<and> i = 0x14c) \<or>
     (fixSpec cfg AND (FIX_HEADER_SUM OR TRASH_HEADER_SUM) \<noteq> 0 \<and> i = 0x14d) \<or>
     (fixSpec cfg AND (FIX_GLOBAL_SUM OR TRASH_GLOBAL_SUM) \<noteq> 0 \<and> (i = 0x14e \<or> i = 0x14f))"

text \<open>A run from the initial state reports nothing and fails no assertion.\<close>

definition succeeds :: "config \<Rightarrow> bool \<Rightarrow> byte list \<Rightarrow> bool" where
  "succeeds cfg sameFd file \<longleftrightarrow>
     stderr (processFile cfg sameFd file initState) = [] \<and>
     \<not> aborted (processFile cfg sameFd file initState)"

text \<open>The output after a run from the initial state.\<close>

definition fixedImage :: "config \<Rightarrow> bool \<Rightarrow> byte list \<Rightarrow> byte list" where
  "fixedImage cfg sameFd file =
     outputImage sameFd file (outOps (processFile cfg sameFd file initState))"

text \<open>The number of padding bytes that are appended.\<close>

definition padLen :: "config \<Rightarrow> byte list \<Rightarrow> nat" where
  "padLen cfg file =
     (if padValue cfg \<noteq> UNSPECIFIED
      then (padTarget (banks (length file)) - 1) * BANK_SIZE - (length file - BANK_SIZE)
      else 0)"

text \<open>\<^verbatim>\<open>rom0\<close> after the header edits and the padding block.\<close>

definition rom0Padded :: "config \<Rightarrow> byte list \<Rightarrow> byte list" where
  "rom0Padded cfg file =
     (let r = applyEdits cfg (take BANK_SIZE file) in
      if padValue cfg \<noteq> UNSPECIFIED
      then (r @ replicate (BANK_SIZE - length r) (of_nat (padValue cfg)))
             [0x148 := of_nat (ctz (padTarget (banks (length file)) div 2))]
      else r)"

text \<open>\<^verbatim>\<open>globalSum\<close> before the bytes of \<^verbatim>\<open>rom0\<close> are added.\<close>

definition sumOutsideRom0 :: "config \<Rightarrow> bool \<Rightarrow> byte list \<Rightarrow> 16 word" where
  "sumOutsideRom0 cfg sameFd file =
     (if sameFd then 0 else addBytes (drop BANK_SIZE file) 0) +
     of_nat (padValue cfg * padLen cfg file)"

text \<open>\<^verbatim>\<open>rom0\<close> when it is written back.\<close>

definition rom0Final :: "config \<Rightarrow> bool \<Rightarrow> byte list \<Rightarrow> byte list" where
  "rom0Final cfg sameFd file =
     fixGlobalSum cfg sameFd (drop BANK_SIZE file) (fixHeaderSum cfg (rom0Padded cfg file))
       (sumOutsideRom0 cfg sameFd file)"

text \<open>The images \<^verbatim>\<open>processFile\<close> does not reject.\<close>

definition accepted :: "bool \<Rightarrow> byte list \<Rightarrow> bool" where
  "accepted sameFd file \<longleftrightarrow>
     0x150 \<le> length file \<and>
     (if sameFd then length file < 0x10000 * BANK_SIZE else banks (length file) \<le> 0x10000)"

text \<open>The header checksum in the words of the specification: start at zero and subtract (byte value + 1) for each byte at the offsets 0x134 to 0x14C, keeping 8 bits.\<close>

definition headerChecksumSpec :: "byte list \<Rightarrow> byte" where
  "headerChecksumSpec img = of_int (0 - (\<Sum>i\<leftarrow>[0x134..<0x14d]. uint (img ! i) + 1))"

text \<open>The global checksum in the words of the specification: the sum of every byte of the image, the two bytes at 0x14E and 0x14F counted as zero, truncated to 16 bits.\<close>

definition imageSum :: "byte list \<Rightarrow> 16 word" where
  "imageSum img = of_nat (sum_list (map unat (img[0x14e := 0, 0x14f := 0])))"

text \<open>The 16-bit value stored big-endian at the offsets 0x14E and 0x14F.\<close>

definition storedGlobalSum :: "byte list \<Rightarrow> 16 word" where
  "storedGlobalSum img = push_bit 8 (ucast (img ! 0x14e)) OR ucast (img ! 0x14f)"

section \<open>The MBC specification parser\<close>

subsection \<open>Normalising a name does not change what it parses to\<close>


lemma char_eq_nat: "c = d \<longleftrightarrow> (of_char c :: nat) = of_char d"
  by simp

lemma of_char_sliceChar:
  "(of_char (sliceChar c) :: nat) =
     (if 97 \<le> (of_char c :: nat) \<and> (of_char c :: nat) \<le> 122 then of_char c - 32
      else if (of_char c :: nat) = 95 then 32 else of_char c)"
proof -
  have us: "c = CHR ''_'' \<longleftrightarrow> (of_char c :: nat) = 95"
    by (subst char_eq_nat) simp
  have lt: "(of_char c :: nat) < 256"
    by simp
  show ?thesis
    using lt by (simp add: sliceChar_def us del: nat_of_char_less_256)
qed

lemma sliceChar_idem: "sliceChar (sliceChar c) = sliceChar c"
  by (subst char_eq_nat) (simp add: of_char_sliceChar, arith)

lemma sliceChar_letter:
  "sliceChar c = CHR ''R'' \<or> sliceChar c = CHR ''r'' \<longleftrightarrow> c = CHR ''R'' \<or> c = CHR ''r''"
  "sliceChar c = CHR ''M'' \<or> sliceChar c = CHR ''m'' \<longleftrightarrow> c = CHR ''M'' \<or> c = CHR ''m''"
  "sliceChar c = CHR ''B'' \<or> sliceChar c = CHR ''b'' \<longleftrightarrow> c = CHR ''B'' \<or> c = CHR ''b''"
  "sliceChar c = CHR ''C'' \<or> sliceChar c = CHR ''c'' \<longleftrightarrow> c = CHR ''C'' \<or> c = CHR ''c''"
  "sliceChar c = CHR ''P'' \<or> sliceChar c = CHR ''p'' \<longleftrightarrow> c = CHR ''P'' \<or> c = CHR ''p''"
  "sliceChar c = CHR ''T'' \<or> sliceChar c = CHR ''t'' \<longleftrightarrow> c = CHR ''T'' \<or> c = CHR ''t''"
  "sliceChar c = CHR ''H'' \<or> sliceChar c = CHR ''h'' \<longleftrightarrow> c = CHR ''H'' \<or> c = CHR ''h''"
  "sliceChar c = CHR ''O'' \<or> sliceChar c = CHR ''o'' \<longleftrightarrow> c = CHR ''O'' \<or> c = CHR ''o''"
  "sliceChar c = CHR ''U'' \<or> sliceChar c = CHR ''u'' \<longleftrightarrow> c = CHR ''U'' \<or> c = CHR ''u''"
  "sliceChar c = CHR ''A'' \<or> sliceChar c = CHR ''a'' \<longleftrightarrow> c = CHR ''A'' \<or> c = CHR ''a''"
  "sliceChar c = CHR ''S'' \<or> sliceChar c = CHR ''s'' \<longleftrightarrow> c = CHR ''S'' \<or> c = CHR ''s''"
  by ((simp add: char_eq_nat of_char_sliceChar del: of_char_eq_iff; arith)+)

lemma sliceChar_other:
  "sliceChar c = CHR ''1'' \<longleftrightarrow> c = CHR ''1''"
  "sliceChar c = CHR ''2'' \<longleftrightarrow> c = CHR ''2''"
  "sliceChar c = CHR ''3'' \<longleftrightarrow> c = CHR ''3''"
  "sliceChar c = CHR ''5'' \<longleftrightarrow> c = CHR ''5''"
  "sliceChar c = CHR ''6'' \<longleftrightarrow> c = CHR ''6''"
  "sliceChar c = CHR ''7'' \<longleftrightarrow> c = CHR ''7''"
  "sliceChar c = CHR ''+'' \<longleftrightarrow> c = CHR ''+''"
  "sliceChar c = CHR 0x09 \<longleftrightarrow> c = CHR 0x09"
  "sliceChar c = CHR '' '' \<longleftrightarrow> c = CHR '' '' \<or> c = CHR ''_''"
  "sliceChar c = CHR ''_'' \<longleftrightarrow> False"
  by ((simp add: char_eq_nat of_char_sliceChar del: of_char_eq_iff; arith)+)

lemma readMBCSlice_map:
  "readMBCSlice (map sliceChar name) expected = map_option (map sliceChar) (readMBCSlice name expected)"
  by (induction name expected rule: readMBCSlice.induct) (simp_all add: sliceChar_idem)

lemma skipSep_map: "skipSep (map sliceChar s) = map sliceChar (skipSep s)"
  by (induction s) (simp_all add: skipSep_def sliceChar_other)

definition mapRest :: "('a \<times> char list) option \<Rightarrow> ('a \<times> char list) option" where
  "mapRest = map_option (apsnd (map sliceChar))"

lemma mapRest_simps [simp]: "mapRest None = None" "mapRest (Some (m, r)) = Some (m, map sliceChar r)"
  by (simp_all add: mapRest_def)

lemma readMBCDigit_map: "readMBCDigit (map sliceChar ptr) = mapRest (readMBCDigit ptr)"
  by (cases ptr) (simp_all add: readMBCDigit_def sliceChar_other)

lemma readTypeMB_map: "readTypeMB (map sliceChar ptr) = mapRest (readTypeMB ptr)"
  by (cases ptr) (simp_all add: readTypeMB_def sliceChar_letter readMBCDigit_map)

lemma readTypeM_map: "readTypeM (map sliceChar ptr) = mapRest (readTypeM ptr)"
  by (cases ptr)
     (simp_all add: readTypeM_def sliceChar_letter readTypeMB_map readMBCSlice_map
        split: option.split)

lemma readTypeROM_map: "readTypeROM (map sliceChar ptr) = mapRest (readTypeROM ptr)"
proof (cases "readMBCSlice ptr ''OM''")
  case None
  then show ?thesis by (simp add: readTypeROM_def readMBCSlice_map)
next
  case (Some p1)
  show ?thesis
  proof (cases "skipSep p1")
    case Nil
    with Some show ?thesis by (simp add: readTypeROM_def readMBCSlice_map skipSep_map)
  next
    case (Cons c p2)
    with Some show ?thesis
      by (simp add: readTypeROM_def readMBCSlice_map skipSep_map sliceChar_letter split: option.split)
  qed
qed

lemma readTypeHuC_map: "readTypeHuC (map sliceChar ptr) = mapRest (readTypeHuC ptr)"
proof (cases "readMBCSlice ptr ''UC''")
  case None
  then show ?thesis by (simp add: readTypeHuC_def readMBCSlice_map)
next
  case (Some p1)
  then show ?thesis
    by (cases p1) (simp_all add: readTypeHuC_def readMBCSlice_map sliceChar_other)
qed

lemma readType_map: "readType (map sliceChar ptr) = mapRest (readType ptr)"
  by (cases ptr)
     (simp_all add: readType_def sliceChar_letter readTypeM_map readTypeROM_map readTypeHuC_map readMBCSlice_map
        split: option.split)

lemma readFeatureRA_map: "readFeatureRA (map sliceChar ptr) = mapRest (readFeatureRA ptr)"
  using sliceChar_letter(2) [of "hd ptr"]
  by (cases ptr) (simp_all add: readFeatureRA_def)

lemma readFeatureR_map: "readFeatureR (map sliceChar ptr) = mapRest (readFeatureR ptr)"
  by (cases ptr)
     (simp_all add: readFeatureR_def sliceChar_letter readFeatureRA_map readMBCSlice_map
        split: option.split)

lemma readFeature_map: "readFeature (map sliceChar ptr) = mapRest (readFeature ptr)"
  by (cases ptr)
     (simp_all add: readFeature_def sliceChar_letter readFeatureR_map readMBCSlice_map
        split: option.split)

lemma readFeatures_map:
  "readFeatures (map sliceChar ptr) features = mapRest (readFeatures ptr features)"
proof (induction ptr features rule: readFeatures.induct)
  case (1 ptr features)
  show ?case
  proof (cases "skipSep ptr")
    case Nil
    then show ?thesis
      by (simp add: readFeatures.simps [of ptr] readFeatures.simps [of "map sliceChar ptr"] skipSep_map)
  next
    case (Cons c ptr1)
    show ?thesis
    proof (cases "c = CHR ''+''")
      case False
      with Cons show ?thesis
        by (simp add: readFeatures.simps [of ptr] readFeatures.simps [of "map sliceChar ptr"]
            skipSep_map sliceChar_other)
    next
      case True
      show ?thesis
      proof (cases "readFeature (skipSep ptr1)")
        case None
        with Cons True show ?thesis
          by (simp add: readFeatures.simps [of ptr] readFeatures.simps [of "map sliceChar ptr"]
              skipSep_map sliceChar_other readFeature_map)
      next
        case (Some x)
        obtain b ptr2 where x: "x = (b, ptr2)" by (cases x)
        have "readFeatures (map sliceChar ptr2) (features OR b) = mapRest (readFeatures ptr2 (features OR b))"
          using "1.IH" [OF Cons _ Some x [symmetric]] True by simp
        with Cons True Some x show ?thesis
          by (simp add: readFeatures.simps [of ptr] readFeatures.simps [of "map sliceChar ptr"]
              skipSep_map sliceChar_other readFeature_map)
      qed
    qed
  qed
qed


lemma readFeatures_rest: "readFeatures ptr features = Some (f, rest) \<Longrightarrow> rest = []"
proof (induction ptr features rule: readFeatures.induct)
  case (1 ptr features)
  show ?case
  proof (cases "skipSep ptr")
    case Nil
    with "1.prems" show ?thesis
      by (simp add: readFeatures.simps [of ptr])
  next
    case (Cons c ptr1)
    with "1.prems" have plus: "c = CHR ''+''"
      by (simp add: readFeatures.simps [of ptr] split: if_split_asm)
    with Cons "1.prems" obtain x where rfx: "readFeature (skipSep ptr1) = Some x"
      by (cases "readFeature (skipSep ptr1)") (simp_all add: readFeatures.simps [of ptr])
    obtain b ptr2 where x: "x = (b, ptr2)"
      by (cases x)
    from rfx x have rf: "readFeature (skipSep ptr1) = Some (b, ptr2)"
      by simp
    with Cons plus "1.prems" have "readFeatures ptr2 (features OR b) = Some (f, rest)"
      by (simp add: readFeatures.simps [of ptr])
    with "1.IH" [OF Cons _ rf refl] plus show ?thesis
      by simp
  qed
qed


lemma skipBlank_map:
  "readType (skipBlank s) \<noteq> None \<Longrightarrow> skipBlank (map sliceChar s) = map sliceChar (skipBlank s)"
proof (induction s)
  case Nil
  then show ?case by (simp add: skipBlank_def)
next
  case (Cons c cs)
  show ?case
  proof (cases "c = CHR '' '' \<or> c = CHR 0x09")
    case True
    then have "sliceChar c = CHR '' '' \<or> sliceChar c = CHR 0x09"
      by (elim disjE) (simp_all add: sliceChar_other)
    with True Cons show ?thesis
      by (simp add: skipBlank_def)
  next
    case False
    with Cons.prems have nn: "readType (c # cs) \<noteq> None"
      by (simp add: skipBlank_def)
    have "c \<noteq> CHR ''_''"
    proof
      assume "c = CHR ''_''"
      then have "readType (c # cs) = None"
        by (simp add: readType_def)
      with nn show False by simp
    qed
    with False have "\<not> (sliceChar c = CHR '' '' \<or> sliceChar c = CHR 0x09)"
      by (simp add: sliceChar_other)
    with False show ?thesis
      by (simp add: skipBlank_def)
  qed
qed

lemma parseMBCName_map:
  assumes "parseMBCName s \<noteq> MBC_BAD"
  shows "parseMBCName (map sliceChar s) = parseMBCName s"
proof -
  from assms obtain x where rtx: "readType (skipBlank s) = Some x"
    by (cases "readType (skipBlank s)") (simp_all add: parseMBCName_def)
  obtain m p where x: "x = (m, p)"
    by (cases x)
  from rtx x have rt: "readType (skipBlank s) = Some (m, p)"
    by simp
  with assms obtain y where rfy: "readFeatures p 0 = Some y"
    by (cases "readFeatures p 0") (simp_all add: parseMBCName_def)
  obtain f r where y: "y = (f, r)"
    by (cases y)
  from rfy y have rf: "readFeatures p 0 = Some (f, r)"
    by simp
  then have r: "r = []"
    by (rule readFeatures_rest)
  have "readType (skipBlank (map sliceChar s)) = Some (m, map sliceChar p)"
    using rt by (simp add: skipBlank_map readType_map)
  moreover have "readFeatures (map sliceChar p) 0 = Some (f, map sliceChar r)"
    using rf by (simp add: readFeatures_map)
  ultimately show ?thesis
    using rt rf r by (simp add: parseMBCName_def)
qed

lemma numeric_map: "numeric (map sliceChar s) = numeric s"
  by (cases s) (simp_all add: numeric_def isDigit_def of_char_sliceChar, arith)





lemma parseMBC_map:
  assumes "\<not> numeric s" "parseMBC s \<noteq> MBC_BAD"
  shows "parseMBC (map sliceChar s) = parseMBC s"
  using assms by (simp add: parseMBC_def numeric_map parseMBCName_map)

lemmas parseMBC_eval =
  parseMBC_def numeric_def isDigit_def parseMBCName_def skipBlank_def skipSep_def
  readType_def readTypeM_def readTypeMB_def readMBCDigit_def readTypeROM_def readTypeHuC_def
  readFeatures.simps readFeature_def readFeatureR_def readFeatureRA_def
  sliceChar_def char_of_eq_iff checkFeatures_def
  strtoul0_def hexPrefix_def digitValue_def ULONG_MAX_def mbcName_def mbc

subsection \<open>MBC3 with a timer\<close>

text \<open>
  The test \<^verbatim>\<open>features & (TIMER & BATTERY)\<close> of the \<^verbatim>\<open>MBC3\<close> case is never true,
  since \<^verbatim>\<open>TIMER & BATTERY\<close> is zero: the case accepts no features, RAM, and
  RAM with BATTERY, and nothing else.
\<close>

lemma checkFeatures_MBC3:
  "checkFeatures MBC3 features =
     (if features = RAM then Inr MBC3_RAM
      else if features = (RAM OR BATTERY) then Inr MBC3_RAM_BATTERY
      else if features \<noteq> 0 then Inl MBC_WRONG_FEATURES
      else Inr MBC3)"
  by (simp add: checkFeatures_def mbc)

text \<open>
  C1 (as the code behaves): for the base type MBC3 the feature sets {TIMER, BATTERY} and
  {TIMER, RAM, BATTERY} are not accepted.  \<^verbatim>\<open>parseMBC\<close> returns the wrong-features
  error for both, where the claim wants the codes 0x0F and 0x10.
\<close>

theorem parseMBC_MBC3_timer_wrong_features:
  "parseMBC ''MBC3+TIMER+BATTERY'' = MBC_WRONG_FEATURES \<and>
   parseMBC ''mbc3+timer+ram+battery'' = MBC_WRONG_FEATURES \<and>
   MBC3_TIMER_BATTERY = 0x0F \<and> MBC3_TIMER_RAM_BATTERY = 0x10"
  by (simp add: parseMBC_eval)

subsection \<open>Names and codes\<close>

text \<open>
  Every value that has a name, but for the two MBC3 values with a timer, is what
  \<^verbatim>\<open>parseMBC\<close> returns for its name.
\<close>

lemma mbcName_cases:
  assumes "mbcName type = Some name"
  shows "type \<in> {ROM, ROM_RAM, ROM_RAM_BATTERY, MBC1, MBC1_RAM, MBC1_RAM_BATTERY, MBC2,
    MBC2_BATTERY, MMM01, MMM01_RAM, MMM01_RAM_BATTERY, MBC3, MBC3_TIMER_BATTERY,
    MBC3_TIMER_RAM_BATTERY, MBC3_RAM, MBC3_RAM_BATTERY, MBC5, MBC5_RAM, MBC5_RAM_BATTERY,
    MBC5_RUMBLE, MBC5_RUMBLE_RAM, MBC5_RUMBLE_RAM_BATTERY, MBC6,
    MBC7_SENSOR_RUMBLE_RAM_BATTERY, POCKET_CAMERA, BANDAI_TAMA5, HUC3, HUC1_RAM_BATTERY}"
  using assms unfolding mbcName_def by (simp split: if_split_asm)

text \<open>
  C2 (as the code behaves): the numeric token \<^verbatim>\<open>15\<close> gives the code 0x0F, whose name is
  \<^verbatim>\<open>MBC3+TIMER+BATTERY\<close>, and \<^verbatim>\<open>parseMBC\<close> does not return 0x0F for that name but the
  wrong-features error; the same for 0x10.
\<close>

theorem mbcName_roundtrip_fails_MBC3_timer:
  "parseMBC ''15'' = MBC3_TIMER_BATTERY \<and>
   mbcName MBC3_TIMER_BATTERY = Some ''MBC3+TIMER+BATTERY'' \<and>
   parseMBC ''MBC3+TIMER+BATTERY'' = MBC_WRONG_FEATURES \<and>
   parseMBC ''0x10'' = MBC3_TIMER_RAM_BATTERY \<and>
   mbcName MBC3_TIMER_RAM_BATTERY = Some ''MBC3+TIMER+RAM+BATTERY'' \<and>
   parseMBC ''MBC3+TIMER+RAM+BATTERY'' = MBC_WRONG_FEATURES"
  by (simp add: parseMBC_eval)

subsection \<open>Letter case, underscores and spaces\<close>







section \<open>The pass over one image\<close>

subsection \<open>Auxiliary facts\<close>

lemma BANK_SIZE_gt: "0x150 < BANK_SIZE" "0 < BANK_SIZE"
  by (simp_all add: BANK_SIZE_def)

lemma report_simps [simp]:
  "stderr (report msg st) = stderr st @ [msg]"
  "outOps (report msg st) = outOps st"
  "aborted (report msg st) = aborted st"
  "nbErrors (report msg st) = (if nbErrors st \<noteq> 0xFF then nbErrors st + 1 else nbErrors st)"
  by (simp_all add: report_def)

lemma nbErrors_report_nonzero: "nbErrors (report msg st) \<noteq> 0"
proof (cases "nbErrors st = 0xFF")
  case True
  then show ?thesis by simp
next
  case False
  have "nbErrors st + 1 \<noteq> 0"
  proof
    assume "nbErrors st + 1 = 0"
    then have "nbErrors st = - 1"
      by (rule max_word_wrap)
    with False show False by simp
  qed
  with False show ?thesis by simp
qed

lemma unat_nbErrors_report:
  "unat (nbErrors (report msg st)) = min 255 (Suc (unat (nbErrors st)))"
proof (cases "nbErrors st = 0xFF")
  case True
  then show ?thesis by simp
next
  case False
  have nz: "1 + nbErrors st \<noteq> 0"
    using nbErrors_report_nonzero [of msg st] False by (simp add: add.commute)
  then have "unat (1 + nbErrors st) = Suc (unat (nbErrors st))"
    by (rule unatSuc)
  moreover have "unat (1 + nbErrors st) < 256"
    using unsigned_less [of "1 + nbErrors st", where 'a = nat] by simp
  ultimately show ?thesis
    using False by (simp add: add.commute)
qed

lemma unat_nbErrors_fold_report:
  "unat (nbErrors (fold report msgs st)) = min 255 (unat (nbErrors st) + length msgs)"
proof (induction msgs arbitrary: st)
  case Nil
  have "unat (nbErrors st) < 256"
    using unsigned_less [of "nbErrors st", where 'a = nat] by simp
  then show ?case by simp
next
  case (Cons m msgs)
  have "unat (nbErrors (fold report (m # msgs) st)) =
      min 255 (unat (nbErrors (report m st)) + length msgs)"
    using Cons.IH [of "report m st"] by (simp del: report_simps)
  also have "\<dots> = min 255 (min 255 (Suc (unat (nbErrors st))) + length msgs)"
    by (simp only: unat_nbErrors_report)
  also have "\<dots> = min 255 (unat (nbErrors st) + length (m # msgs))"
    by simp
  finally show ?case .
qed

lemma length_memcpy [simp]: "length (memcpy buf off src) = length buf"
  by (induction src arbitrary: buf off) simp_all

lemma nth_memcpy_outside:
  "i < off \<or> off + length src \<le> i \<Longrightarrow> memcpy buf off src ! i = buf ! i"
  by (induction src arbitrary: buf off) auto

lemma drop_memcpy: "off + length src \<le> n \<Longrightarrow> drop n (memcpy buf off src) = drop n buf"
  by (induction src arbitrary: buf off) (simp_all add: drop_update_cancel)

lemma addBytes_Nil [simp]: "addBytes [] g = g"
  by (simp add: addBytes_def)

lemma addBytes_append: "addBytes (xs @ ys) g = addBytes ys (addBytes xs g)"
  by (simp add: addBytes_def)

lemma addBytes_shift: "addBytes xs (g + h) = g + addBytes xs h"
  by (induction xs arbitrary: h) (simp_all add: addBytes_def add.assoc)

lemma addBytes_acc: "addBytes xs g = g + addBytes xs 0"
  using addBytes_shift [of xs g 0] by simp

lemma addBytes_replicate: "addBytes (replicate n v) g = g + of_nat n * ucast v"
  by (induction n arbitrary: g) (simp_all add: addBytes_def algebra_simps)

lemma addBytes_take_drop: "addBytes (drop n xs) (addBytes (take n xs) g) = addBytes xs g"
  using addBytes_append [of "take n xs" "drop n xs" g] by simp

lemma sumRest_eq: "sumRest inp g = addBytes inp g"
proof (induction inp g rule: sumRest.induct)
  case (1 inp g)
  show ?case
  proof (cases "length (take BANK_SIZE inp) \<noteq> BANK_SIZE")
    case True
    then have "take BANK_SIZE inp = inp"
      by (simp add: min_def split: if_splits)
    with True show ?thesis
      by (subst sumRest.simps) (simp add: Let_def)
  next
    case False
    with "1.IH" [OF refl refl] show ?thesis
      by (subst sumRest.simps) (simp add: Let_def addBytes_take_drop)
  qed
qed

lemma banks_0 [simp]: "banks 0 = 0"
  using BANK_SIZE_gt(2) by (simp add: banks_def)

lemma banks_step:
  assumes "BANK_SIZE \<le> n"
  shows "banks n = Suc (banks (n - BANK_SIZE))"
proof -
  have "(n + (BANK_SIZE - 1)) div BANK_SIZE = Suc ((n + (BANK_SIZE - 1) - BANK_SIZE) div BANK_SIZE)"
    using assms BANK_SIZE_gt(2) by (intro le_div_geq) simp_all
  moreover have "n + (BANK_SIZE - 1) - BANK_SIZE = n - BANK_SIZE + (BANK_SIZE - 1)"
    using assms by simp
  ultimately show ?thesis by (simp only: banks_def)
qed

lemma banks_small:
  assumes "0 < n" "n \<le> BANK_SIZE"
  shows "banks n = 1"
proof -
  have "(n + (BANK_SIZE - 1)) div BANK_SIZE = Suc ((n + (BANK_SIZE - 1) - BANK_SIZE) div BANK_SIZE)"
  proof (intro le_div_geq)
    show "0 < BANK_SIZE" by (rule BANK_SIZE_gt)
    from assms show "BANK_SIZE \<le> n + (BANK_SIZE - 1)" by linarith
  qed
  moreover have "n + (BANK_SIZE - 1) - BANK_SIZE < BANK_SIZE"
    using assms by linarith
  ultimately show ?thesis by (simp add: banks_def)
qed

lemma readRomx_eq:
  assumes "nb \<le> 0x10000"
  shows "readRomx inp romx nb g =
     (if nb + banks (length inp) > 0x10000 then Inl TooManyBanks
      else Inr (romx @ inp, nb + banks (length inp), addBytes inp g))"
  using assms
proof (induction inp romx nb g rule: readRomx.induct)
  case (1 inp romx nb g)
  note bs = BANK_SIZE_gt(2)
  show ?case
  proof (cases "inp = []")
    case True
    with bs "1.prems" show ?thesis
      by (subst readRomx.simps) (simp add: Let_def)
  next
    case nonempty: False
    then have len: "0 < length inp" by simp
    show ?thesis
    proof (cases "length inp < BANK_SIZE")
      case True
      then have tk: "take BANK_SIZE inp = inp" by simp
      have c: "banks (length inp) = 1"
        using True len by (intro banks_small) simp_all
      from nonempty True "1.prems" show ?thesis
        by (subst readRomx.simps) (simp add: Let_def tk c)
    next
      case False
      then have ge: "BANK_SIZE \<le> length inp" by simp
      have c: "banks (length inp) = Suc (banks (length inp - BANK_SIZE))"
        using ge by (rule banks_step)
      have tl: "length (take BANK_SIZE inp) = BANK_SIZE"
        using ge by simp
      show ?thesis
      proof (cases "nb = 0x10000")
        case True
        with tl bs nonempty show ?thesis
          by (subst readRomx.simps) (simp add: Let_def c)
      next
        case nb: False
        with "1.prems" have nb': "nb + 1 \<le> 0x10000" by simp
        have unfold: "readRomx inp romx nb g =
            readRomx (drop BANK_SIZE inp) (romx @ take BANK_SIZE inp) (nb + 1)
              (addBytes (take BANK_SIZE inp) g)"
          using nb tl bs nonempty by (subst readRomx.simps) (simp add: Let_def)
        have ih: "readRomx (drop BANK_SIZE inp) (romx @ take BANK_SIZE inp) (nb + 1)
            (addBytes (take BANK_SIZE inp) g) =
          (if nb + 1 + banks (length (drop BANK_SIZE inp)) > 0x10000
           then Inl TooManyBanks
           else Inr ((romx @ take BANK_SIZE inp) @ drop BANK_SIZE inp,
                  nb + 1 + banks (length (drop BANK_SIZE inp)),
                  addBytes (drop BANK_SIZE inp) (addBytes (take BANK_SIZE inp) g)))"
          using "1.IH" [OF refl refl _ nb _ nb'] tl bs nonempty by simp
        have ln: "length (drop BANK_SIZE inp) = length inp - BANK_SIZE"
          by simp
        show ?thesis
          unfolding unfold ih ln c by (simp add: addBytes_take_drop)
      qed
    qed
  qed
qed

lemma writePadding_run:
  "fold runIO (writePadding len v) (d, length d) = (d @ replicate len v, length d + len)"
proof (induction len v arbitrary: d rule: writePadding.induct)
  case (1 len v)
  show ?case
  proof (cases "len = 0")
    case True
    then show ?thesis by (subst writePadding.simps) simp
  next
    case False
    define thisLen where "thisLen = (if len > BANK_SIZE then BANK_SIZE else len)"
    have le: "thisLen \<le> len" by (simp add: thisLen_def)
    have "fold runIO (writePadding (len - thisLen) v)
        (d @ replicate thisLen v, length (d @ replicate thisLen v)) =
        ((d @ replicate thisLen v) @ replicate (len - thisLen) v,
         length (d @ replicate thisLen v) + (len - thisLen))"
      using "1.IH" [OF False thisLen_def] .
    moreover have "replicate thisLen v @ replicate (len - thisLen) v = replicate len v"
      using le by (simp add: replicate_add [symmetric])
    ultimately show ?thesis
      using False le by (subst writePadding.simps) (simp add: Let_def thisLen_def [symmetric])
  qed
qed

lemma and_pred_pow2:
  fixes n :: nat
  assumes "0 < n" "n AND (n - 1) = 0"
  shows "\<exists>k. n = 2 ^ k"
  using assms
proof (induction n rule: less_induct)
  case (less n)
  show ?case
  proof (cases "n = 1")
    case True
    then have "n = 2 ^ 0" by simp
    then show ?thesis by blast
  next
    case False
    with less.prems have n2: "2 \<le> n" by simp
    show ?thesis
    proof (cases "odd n")
      case True
      then have ev: "even (n - 1)" using n2 by simp
      have "(n - 1) div 2 = n div 2"
        using True n2 by (metis ev even_Suc_div_two Suc_diff_1 less.prems(1))
      then have "n AND (n - 1) = 2 * (n div 2 AND n div 2)"
        using True ev by (subst and_nat_rec) simp
      with less.prems(2) n2 show ?thesis by simp
    next
      case even: False
      define m where "m = n div 2"
      have n: "n = 2 * m" using even by (simp add: m_def)
      have m: "0 < m" "m < n" using n2 n by simp_all
      have "(n - 1) div 2 = m - 1"
        using n m(1) by (cases m) simp_all
      then have "n AND (n - 1) = 2 * (m AND (m - 1))"
        using even by (subst and_nat_rec) (simp add: m_def)
      with less.prems(2) have "m AND (m - 1) = 0" by simp
      with less.IH [OF m(2) m(1)] obtain k where "m = 2 ^ k" by blast
      with n have "n = 2 ^ Suc k" by simp
      then show ?thesis by blast
    qed
  qed
qed

lemma bitlen_bounds: "0 < n \<Longrightarrow> 2 ^ (bitlen n - 1) \<le> n \<and> n < 2 ^ bitlen n"
proof (induction n rule: bitlen.induct)
  case (1 n)
  show ?case
  proof (cases "n div 2 = 0")
    case True
    with "1.prems" have "n = 1" by (simp add: div_eq_0_iff)
    then show ?thesis by (simp add: bitlen.simps)
  next
    case False
    then have pos: "0 < n div 2" by simp
    from "1.IH" [OF _ pos] "1.prems"
    have ih: "2 ^ (bitlen (n div 2) - 1) \<le> n div 2" "n div 2 < 2 ^ bitlen (n div 2)"
      by simp_all
    have bl: "bitlen n = Suc (bitlen (n div 2))"
      using "1.prems" by (subst bitlen.simps) simp
    have b1: "0 < bitlen (n div 2)"
      using pos by (subst bitlen.simps) simp
    then have "(2::nat) ^ (bitlen n - 1) = 2 * 2 ^ (bitlen (n div 2) - 1)"
      using bl by (cases "bitlen (n div 2)") simp_all
    with ih show ?thesis
      using bl by simp linarith
  qed
qed

lemma ctz_pow2: "ctz (2 ^ k) = k"
  by (induction k) (simp_all add: ctz.simps)

lemma clz_bitlen:
  assumes "0 < n" "n \<le> 0x10000"
  shows "32 - clz n = bitlen n" "bitlen n \<le> 17"
proof -
  have "(2::nat) ^ (bitlen n - 1) \<le> n"
    using bitlen_bounds [OF assms(1)] by simp
  with assms(2) have "(2::nat) ^ (bitlen n - 1) < 2 ^ 17"
    by simp
  then have "bitlen n - 1 < 17"
    by (simp only: power_strict_increasing_iff [of 2])
  then show "bitlen n \<le> 17" by simp
  then show "32 - clz n = bitlen n"
    by (simp add: clz_def)
qed

lemma padTarget_props:
  assumes "1 \<le> nb" "nb \<le> 0x10000"
  shows "\<exists>k. padTarget nb = 2 ^ Suc k \<and> k \<le> 15"
    and "max 2 nb \<le> padTarget nb" and "padTarget nb div 2 < max 2 nb"
proof -
  define n where "n = (if nb = 1 then 2 else nb)"
  have n: "n = max 2 nb" "2 \<le> n" "n \<le> 0x10000"
    using assms by (simp_all add: n_def max_def)
  have T: "padTarget nb = (if n AND (n - 1) \<noteq> 0 then 2 ^ (32 - clz n) else n)"
    by (simp add: padTarget_def n_def Let_def)
  have main: "(\<exists>j. padTarget nb = 2 ^ j) \<and> n \<le> padTarget nb \<and> padTarget nb div 2 < n \<and> padTarget nb \<le> 0x10000"
  proof (cases "n AND (n - 1) = 0")
    case True
    with n(2) and_pred_pow2 [of n] obtain j where nj: "n = 2 ^ j" by auto
    from True T have Tn: "padTarget nb = n" by simp
    have "\<exists>j. padTarget nb = 2 ^ j" using Tn nj by blast
    moreover have "padTarget nb div 2 < n" using Tn n(2) by simp
    ultimately show ?thesis using Tn n(3) by simp
  next
    case False
    have pos: "0 < n" using n(2) by simp
    have cb: "32 - clz n = bitlen n" "bitlen n \<le> 17"
      using clz_bitlen [OF pos n(3)] by simp_all
    have bb: "2 ^ (bitlen n - 1) \<le> n" "n < 2 ^ bitlen n"
      using bitlen_bounds [OF pos] by simp_all
    have b1: "0 < bitlen n"
      using pos by (subst bitlen.simps) simp
    then have half: "(2::nat) ^ bitlen n div 2 = 2 ^ (bitlen n - 1)"
      by (cases "bitlen n") simp_all
    have ne: "n \<noteq> 2 ^ (bitlen n - 1)"
    proof
      assume eq: "n = 2 ^ (bitlen n - 1)"
      have "(2::nat) ^ (bitlen n - 1) AND (2 ^ (bitlen n - 1) - 1) = 0"
        by (metis and.commute mask_eq_exp_minus_1 and_exp_eq_0_iff_not_bit bit_mask_iff less_irrefl)
      with eq False show False by metis
    qed
    have le: "(2::nat) ^ bitlen n \<le> 0x10000"
    proof -
      from bb(1) ne have "2 ^ (bitlen n - 1) < n" by simp
      with n(3) have "(2::nat) ^ (bitlen n - 1) < 2 ^ 16" by simp
      then have "bitlen n - 1 < 16" by (simp only: power_strict_increasing_iff [of 2])
      then have "bitlen n \<le> 16" by simp
      then have "(2::nat) ^ bitlen n \<le> 2 ^ 16" by (intro power_increasing) simp_all
      then show ?thesis by simp
    qed
    from False T cb have "padTarget nb = 2 ^ bitlen n" by simp
    with bb ne half le show ?thesis by auto
  qed
  then obtain j where j: "padTarget nb = 2 ^ j" by blast
  from main n have "2 \<le> padTarget nb" "padTarget nb \<le> 0x10000" by simp_all
  with j have "0 < j" "j \<le> 16"
  proof -
    from \<open>2 \<le> padTarget nb\<close> j show "0 < j" by (cases j) simp_all
    from \<open>padTarget nb \<le> 0x10000\<close> j have "(2::nat) ^ j \<le> 2 ^ 16" by simp
    then show "j \<le> 16" by (simp only: power_increasing_iff [of 2])
  qed
  then have "padTarget nb = 2 ^ Suc (j - 1) \<and> j - 1 \<le> 15"
    using j by (cases j) simp_all
  then show "\<exists>k. padTarget nb = 2 ^ Suc k \<and> k \<le> 15" by blast
  from main n show "max 2 nb \<le> padTarget nb" "padTarget nb div 2 < max 2 nb" by simp_all
qed

lemma padRom_eq:
  assumes "padValue cfg \<noteq> UNSPECIFIED" "1 \<le> nb" "nb = 1 \<or> length rom0 = BANK_SIZE"
  shows "padRom cfg rom0 nb rl g =
     Some ((rom0 @ replicate (BANK_SIZE - length rom0) (of_nat (padValue cfg)))
             [0x148 := of_nat (ctz (padTarget nb div 2))],
           padTarget nb,
           g + of_nat (padValue cfg * ((padTarget nb - 1) * BANK_SIZE - rl)))"
proof (cases "nb = 1")
  case True
  with assms(1) show ?thesis
    by (simp add: padRom_def padTarget_def Let_def)
next
  case False
  with assms have "length rom0 = BANK_SIZE" "2 \<le> nb" by simp_all
  with assms(1) False show ?thesis
    by (simp add: padRom_def padTarget_def Let_def)
qed

lemma padRom_none:
  "padValue cfg = UNSPECIFIED \<Longrightarrow> padRom cfg rom0 nb rl g = Some (rom0, nb, g)"
  by (simp add: padRom_def)

lemma handleRomx_eq:
  assumes "file \<noteq> []"
  shows "handleRomx sameFd file (length (take BANK_SIZE file)) =
     (if (if sameFd then length file \<ge> 0x10000 * BANK_SIZE else banks (length file) > 0x10000)
      then Inl TooManyBanks
      else Inr (if \<not> sameFd \<and> BANK_SIZE \<le> length file then Some (drop BANK_SIZE file) else None,
                banks (length file), length file - BANK_SIZE,
                if sameFd then 0 else addBytes (drop BANK_SIZE file) 0))"
proof (cases sameFd)
  case True
  then show ?thesis
    by (simp add: handleRomx_def Let_def banks_def)
next
  case pipe: False
  show ?thesis
  proof (cases "BANK_SIZE \<le> length file")
    case True
    have "readRomx (drop BANK_SIZE file) [] 1 0 =
        (if 1 + banks (length (drop BANK_SIZE file)) > 0x10000 then Inl TooManyBanks
         else Inr ([] @ drop BANK_SIZE file, 1 + banks (length (drop BANK_SIZE file)),
                addBytes (drop BANK_SIZE file) 0))"
      by (rule readRomx_eq) simp
    moreover have "banks (length file) = Suc (banks (length file - BANK_SIZE))"
      using True by (rule banks_step)
    ultimately show ?thesis
      using pipe True by (simp add: handleRomx_def)
  next
    case False
    then have "banks (length file) = 1"
      using assms by (intro banks_small) simp_all
    with pipe False show ?thesis
      by (simp add: handleRomx_def)
  qed
qed

lemma length_ninLogo: "length ninLogo = 48"
  by (simp add: ninLogo_def)

lemma length_edits [simp]:
  "length (editLogo cfg r) = length r"
  "length (editTitle cfg r) = length r"
  "length (editGameID cfg r) = length r"
  "length (editModel cfg r) = length r"
  "length (editNewLicensee cfg r) = length r"
  "length (editSgb cfg r) = length r"
  "length (editCartridgeType cfg r) = length r"
  "length (editRamSize cfg r) = length r"
  "length (editJapanese cfg r) = length r"
  "length (editOldLicensee cfg r) = length r"
  "length (editRomVersion cfg r) = length r"
  by (simp_all add: editLogo_def editTitle_def editGameID_def editModel_def
      editNewLicensee_def editSgb_def editCartridgeType_def editRamSize_def editJapanese_def
      editOldLicensee_def editRomVersion_def split: option.split)

lemma length_applyEdits [simp]: "length (applyEdits cfg r) = length r"
  by (simp add: applyEdits_def)

lemma drop_editLogo: "0x150 \<le> n \<Longrightarrow> drop n (editLogo cfg r) = drop n r"
  by (simp add: editLogo_def drop_memcpy length_ninLogo)

lemma drop_editTitle:
  assumes "config_ok cfg" "0x150 \<le> n"
  shows "drop n (editTitle cfg r) = drop n r"
proof (cases "title cfg")
  case None
  then show ?thesis by (simp add: editTitle_def)
next
  case (Some t)
  with assms(1) have "length t \<le> 16" by (simp add: config_ok_def optLen_def)
  with assms(2) Some show ?thesis by (simp add: editTitle_def drop_memcpy)
qed

lemma drop_editGameID:
  assumes "config_ok cfg" "0x150 \<le> n"
  shows "drop n (editGameID cfg r) = drop n r"
proof (cases "gameID cfg")
  case None
  then show ?thesis by (simp add: editGameID_def)
next
  case (Some t)
  with assms(1) have "length t \<le> 4" by (simp add: config_ok_def optLen_def)
  with assms(2) Some show ?thesis by (simp add: editGameID_def drop_memcpy)
qed

lemma drop_editNewLicensee:
  assumes "config_ok cfg" "0x150 \<le> n"
  shows "drop n (editNewLicensee cfg r) = drop n r"
proof (cases "newLicensee cfg")
  case None
  then show ?thesis by (simp add: editNewLicensee_def)
next
  case (Some t)
  with assms(1) have "length t \<le> 2" by (simp add: config_ok_def optLen_def)
  with assms(2) Some show ?thesis by (simp add: editNewLicensee_def drop_memcpy)
qed

lemma drop_edits_bytes:
  assumes "0x150 \<le> n"
  shows "drop n (editModel cfg r) = drop n r"
    "drop n (editSgb cfg r) = drop n r"
    "drop n (editCartridgeType cfg r) = drop n r"
    "drop n (editRamSize cfg r) = drop n r"
    "drop n (editJapanese cfg r) = drop n r"
    "drop n (editOldLicensee cfg r) = drop n r"
    "drop n (editRomVersion cfg r) = drop n r"
  using assms
  by (simp_all add: editModel_def editSgb_def editCartridgeType_def editRamSize_def
      editJapanese_def editOldLicensee_def editRomVersion_def drop_update_cancel)

lemma drop_applyEdits:
  "config_ok cfg \<Longrightarrow> 0x150 \<le> n \<Longrightarrow> drop n (applyEdits cfg r) = drop n r"
  by (simp add: applyEdits_def drop_editLogo drop_editTitle drop_editGameID
      drop_editNewLicensee drop_edits_bytes)

lemma mayChangeI:
  "fixSpec cfg AND (FIX_LOGO OR TRASH_LOGO) \<noteq> 0 \<Longrightarrow> 0x104 \<le> i \<Longrightarrow> i < 0x134 \<Longrightarrow> mayChange cfg i"
  "0x134 \<le> i \<Longrightarrow> i < 0x134 + optLen (title cfg) \<Longrightarrow> mayChange cfg i"
  "0x13f \<le> i \<Longrightarrow> i < 0x13f + optLen (gameID cfg) \<Longrightarrow> mayChange cfg i"
  "model cfg \<noteq> DMG \<Longrightarrow> i = 0x143 \<Longrightarrow> mayChange cfg i"
  "0x144 \<le> i \<Longrightarrow> i < 0x144 + optLen (newLicensee cfg) \<Longrightarrow> mayChange cfg i"
  "sgb cfg \<Longrightarrow> i = 0x146 \<Longrightarrow> mayChange cfg i"
  "cartridgeType cfg < MBC_NONE \<Longrightarrow> i = 0x147 \<Longrightarrow> mayChange cfg i"
  "padValue cfg \<noteq> UNSPECIFIED \<Longrightarrow> i = 0x148 \<Longrightarrow> mayChange cfg i"
  "ramSize cfg \<noteq> UNSPECIFIED \<Longrightarrow> i = 0x149 \<Longrightarrow> mayChange cfg i"
  "\<not> japanese cfg \<Longrightarrow> i = 0x14a \<Longrightarrow> mayChange cfg i"
  "oldLicensee cfg \<noteq> UNSPECIFIED \<Longrightarrow> i = 0x14b \<Longrightarrow> mayChange cfg i"
  "romVersion cfg \<noteq> UNSPECIFIED \<Longrightarrow> i = 0x14c \<Longrightarrow> mayChange cfg i"
  "fixSpec cfg AND (FIX_HEADER_SUM OR TRASH_HEADER_SUM) \<noteq> 0 \<Longrightarrow> i = 0x14d \<Longrightarrow> mayChange cfg i"
  "fixSpec cfg AND (FIX_GLOBAL_SUM OR TRASH_GLOBAL_SUM) \<noteq> 0 \<Longrightarrow> i = 0x14e \<or> i = 0x14f \<Longrightarrow> mayChange cfg i"
  by (simp_all add: mayChange_def)

lemma nth_editLogo:
  assumes "\<not> mayChange cfg i"
  shows "editLogo cfg r ! i = r ! i"
proof (cases "fixSpec cfg AND (FIX_LOGO OR TRASH_LOGO) \<noteq> 0")
  case False
  then show ?thesis by (simp add: editLogo_def)
next
  case True
  with assms mayChangeI(1) [of cfg i] have "i < 0x104 \<or> 0x104 + 48 \<le> i"
    by fastforce
  then show ?thesis
    by (simp add: editLogo_def nth_memcpy_outside length_ninLogo)
qed

lemma nth_editTitle:
  assumes "\<not> mayChange cfg i"
  shows "editTitle cfg r ! i = r ! i"
proof (cases "title cfg")
  case None
  then show ?thesis by (simp add: editTitle_def)
next
  case (Some t)
  with assms mayChangeI(2) [of i cfg] have "i < 0x134 \<or> 0x134 + length t \<le> i"
    by (fastforce simp: optLen_def)
  with Some show ?thesis
    by (simp add: editTitle_def nth_memcpy_outside)
qed

lemma nth_editGameID:
  assumes "\<not> mayChange cfg i"
  shows "editGameID cfg r ! i = r ! i"
proof (cases "gameID cfg")
  case None
  then show ?thesis by (simp add: editGameID_def)
next
  case (Some t)
  with assms mayChangeI(3) [of i cfg] have "i < 0x13f \<or> 0x13f + length t \<le> i"
    by (fastforce simp: optLen_def)
  with Some show ?thesis
    by (simp add: editGameID_def nth_memcpy_outside)
qed

lemma nth_editNewLicensee:
  assumes "\<not> mayChange cfg i"
  shows "editNewLicensee cfg r ! i = r ! i"
proof (cases "newLicensee cfg")
  case None
  then show ?thesis by (simp add: editNewLicensee_def)
next
  case (Some t)
  with assms mayChangeI(5) [of i cfg] have "i < 0x144 \<or> 0x144 + length t \<le> i"
    by (fastforce simp: optLen_def)
  with Some show ?thesis
    by (simp add: editNewLicensee_def nth_memcpy_outside)
qed

lemma not_mayChangeD:
  assumes "\<not> mayChange cfg i"
  shows "model cfg \<noteq> DMG \<Longrightarrow> i \<noteq> 0x143"
    "sgb cfg \<Longrightarrow> i \<noteq> 0x146"
    "cartridgeType cfg < MBC_NONE \<Longrightarrow> i \<noteq> 0x147"
    "padValue cfg \<noteq> UNSPECIFIED \<Longrightarrow> i \<noteq> 0x148"
    "ramSize cfg \<noteq> UNSPECIFIED \<Longrightarrow> i \<noteq> 0x149"
    "\<not> japanese cfg \<Longrightarrow> i \<noteq> 0x14a"
    "oldLicensee cfg \<noteq> UNSPECIFIED \<Longrightarrow> i \<noteq> 0x14b"
    "romVersion cfg \<noteq> UNSPECIFIED \<Longrightarrow> i \<noteq> 0x14c"
    "fixSpec cfg AND (FIX_HEADER_SUM OR TRASH_HEADER_SUM) \<noteq> 0 \<Longrightarrow> i \<noteq> 0x14d"
    "fixSpec cfg AND (FIX_GLOBAL_SUM OR TRASH_GLOBAL_SUM) \<noteq> 0 \<Longrightarrow> i \<noteq> 0x14e"
    "fixSpec cfg AND (FIX_GLOBAL_SUM OR TRASH_GLOBAL_SUM) \<noteq> 0 \<Longrightarrow> i \<noteq> 0x14f"
  using assms mayChangeI(4) [of cfg i] mayChangeI(6) [of cfg i] mayChangeI(7) [of cfg i]
    mayChangeI(8) [of cfg i] mayChangeI(9) [of cfg i] mayChangeI(10) [of cfg i]
    mayChangeI(11) [of cfg i] mayChangeI(12) [of cfg i] mayChangeI(13) [of cfg i]
    mayChangeI(14) [of cfg i]
  by blast+

lemma nth_edits_bytes:
  assumes "\<not> mayChange cfg i"
  shows "editModel cfg r ! i = r ! i"
    "editSgb cfg r ! i = r ! i"
    "editCartridgeType cfg r ! i = r ! i"
    "editRamSize cfg r ! i = r ! i"
    "editJapanese cfg r ! i = r ! i"
    "editOldLicensee cfg r ! i = r ! i"
    "editRomVersion cfg r ! i = r ! i"
  using not_mayChangeD [OF assms]
  by (simp_all add: editModel_def editSgb_def editCartridgeType_def editRamSize_def
      editJapanese_def editOldLicensee_def editRomVersion_def)

lemma nth_applyEdits: "\<not> mayChange cfg i \<Longrightarrow> applyEdits cfg r ! i = r ! i"
  by (simp add: applyEdits_def nth_editLogo nth_editTitle nth_editGameID nth_editNewLicensee
      nth_edits_bytes)

lemma length_fixHeaderSum [simp]: "length (fixHeaderSum cfg r) = length r"
  by (simp add: fixHeaderSum_def)

lemma length_fixGlobalSum [simp]: "length (fixGlobalSum cfg sameFd rest r g) = length r"
  by (simp add: fixGlobalSum_def Let_def)

lemma drop_fixHeaderSum: "0x150 \<le> n \<Longrightarrow> drop n (fixHeaderSum cfg r) = drop n r"
  by (simp add: fixHeaderSum_def drop_update_cancel)

lemma drop_fixGlobalSum: "0x150 \<le> n \<Longrightarrow> drop n (fixGlobalSum cfg sameFd rest r g) = drop n r"
  by (simp add: fixGlobalSum_def Let_def drop_update_cancel)

lemma nth_fixHeaderSum: "\<not> mayChange cfg i \<Longrightarrow> fixHeaderSum cfg r ! i = r ! i"
  using not_mayChangeD(9) [of cfg i]
  by (simp add: fixHeaderSum_def)

lemma nth_fixGlobalSum: "\<not> mayChange cfg i \<Longrightarrow> fixGlobalSum cfg sameFd rest r g ! i = r ! i"
  using not_mayChangeD(10,11) [of cfg i]
  by (simp add: fixGlobalSum_def Let_def)

lemma banks_pos: "0 < n \<Longrightarrow> 1 \<le> banks n"
proof (cases "n \<le> BANK_SIZE")
  case True
  assume "0 < n"
  with True show ?thesis by (simp add: banks_small)
next
  case False
  then show ?thesis by (simp add: banks_step)
qed

lemma processFile_accepted:
  assumes "accepted sameFd file"
  shows "processFile cfg sameFd file st =
     st\<lparr>outOps := outOps st @
        writeBack cfg sameFd (rom0Final cfg sameFd file)
          (if \<not> sameFd \<and> BANK_SIZE \<le> length file then Some (drop BANK_SIZE file) else None)
          (if padValue cfg \<noteq> UNSPECIFIED then padTarget (banks (length file))
           else banks (length file))
          (length file - BANK_SIZE)\<rparr>"
proof -
  from assms have len: "0x150 \<le> length file" and ne: "file \<noteq> []"
    by (auto simp: accepted_def)
  have l0: "\<not> length (take BANK_SIZE file) < 0x150"
    using len BANK_SIZE_gt(1) by simp
  have hr: "handleRomx sameFd file (length (applyEdits cfg (take BANK_SIZE file))) =
      Inr (if \<not> sameFd \<and> BANK_SIZE \<le> length file then Some (drop BANK_SIZE file) else None,
           banks (length file), length file - BANK_SIZE,
           if sameFd then 0 else addBytes (drop BANK_SIZE file) 0)"
    using assms handleRomx_eq [OF ne, of sameFd]
    by (simp add: accepted_def split: if_splits)
  have b1: "1 \<le> banks (length file)"
    using ne by (intro banks_pos) simp
  have b2: "banks (length file) = 1 \<or> length (applyEdits cfg (take BANK_SIZE file)) = BANK_SIZE"
  proof (cases "length file \<le> BANK_SIZE")
    case True
    with ne have "banks (length file) = 1" by (intro banks_small) simp_all
    then show ?thesis by simp
  next
    case False
    then show ?thesis by simp
  qed
  show ?thesis
  proof (cases "padValue cfg \<noteq> UNSPECIFIED")
    case True
    have pr: "padRom cfg (applyEdits cfg (take BANK_SIZE file)) (banks (length file))
        (length file - BANK_SIZE) (if sameFd then 0 else addBytes (drop BANK_SIZE file) 0) =
      Some (rom0Padded cfg file, padTarget (banks (length file)), sumOutsideRom0 cfg sameFd file)"
      using True by (simp add: padRom_eq [OF True b1 b2] rom0Padded_def sumOutsideRom0_def padLen_def Let_def)
    from ne l0 True show ?thesis
      by (simp add: processFile_def Let_def hr pr rom0Final_def del: length_take length_applyEdits)
  next
    case False
    then have pv: "padValue cfg = UNSPECIFIED" by simp
    have pr: "padRom cfg (applyEdits cfg (take BANK_SIZE file)) (banks (length file))
        (length file - BANK_SIZE) (if sameFd then 0 else addBytes (drop BANK_SIZE file) 0) =
      Some (rom0Padded cfg file, banks (length file), sumOutsideRom0 cfg sameFd file)"
      using pv by (simp add: padRom_none rom0Padded_def sumOutsideRom0_def padLen_def Let_def)
    from ne l0 pv show ?thesis
      by (simp add: processFile_def Let_def hr pr rom0Final_def del: length_take length_applyEdits)
  qed
qed

lemma processFile_rejected:
  assumes "\<not> accepted sameFd file"
  shows "outOps (processFile cfg sameFd file st) = outOps st \<and>
     (if sameFd \<and> file = [] then processFile cfg sameFd file st = st\<lparr>aborted := True\<rparr>
      else if length file < 0x150 then processFile cfg sameFd file st = report (TooShort (length file)) st
      else processFile cfg sameFd file st = report TooManyBanks st)"
proof (cases "length file < 0x150")
  case True
  then show ?thesis
    using BANK_SIZE_gt by (simp add: processFile_def Let_def)
next
  case False
  then have ne: "file \<noteq> []" by auto
  have l0: "\<not> length (take BANK_SIZE file) < 0x150"
    using False BANK_SIZE_gt(1) by simp
  have hr: "handleRomx sameFd file (length (applyEdits cfg (take BANK_SIZE file))) = Inl TooManyBanks"
    using assms False handleRomx_eq [OF ne, of sameFd]
    by (simp add: accepted_def split: if_splits)
  from ne l0 False show ?thesis
    by (simp add: processFile_def Let_def hr del: length_take length_applyEdits)
qed

lemma succeeds_iff: "succeeds cfg sameFd file \<longleftrightarrow> accepted sameFd file"
proof (cases "accepted sameFd file")
  case True
  then show ?thesis
    by (simp add: succeeds_def processFile_accepted initState_def)
next
  case False
  from processFile_rejected [OF False, of cfg initState]
  show ?thesis
    using False by (auto simp: succeeds_def initState_def split: if_splits)
qed

lemma length_rom0Padded:
  "length (rom0Padded cfg file) =
     (if padValue cfg \<noteq> UNSPECIFIED then BANK_SIZE else min (length file) BANK_SIZE)"
  by (simp add: rom0Padded_def Let_def)

lemma length_rom0Final:
  "length (rom0Final cfg sameFd file) =
     (if padValue cfg \<noteq> UNSPECIFIED then BANK_SIZE else min (length file) BANK_SIZE)"
  by (simp add: rom0Final_def length_rom0Padded)

lemma drop_rom0Final_nopad:
  assumes "config_ok cfg" "padValue cfg = UNSPECIFIED"
  shows "drop 0x150 (rom0Final cfg sameFd file) = drop 0x150 (take BANK_SIZE file)"
  using assms
  by (simp add: rom0Final_def rom0Padded_def drop_fixGlobalSum drop_fixHeaderSum drop_applyEdits)

lemma runIO_write_end: "runIO (WriteBytes bs) (d, length d) = (d @ bs, length (d @ bs))"
  by simp

lemma padLen_nopad [simp]: "padValue cfg = UNSPECIFIED \<Longrightarrow> padLen cfg file = 0"
  by (simp add: padLen_def)

lemma writeBack_padLen:
  "writeBack cfg sameFd r romx
     (if padValue cfg \<noteq> UNSPECIFIED then padTarget (banks (length file)) else banks (length file))
     (length file - BANK_SIZE) =
   (if sameFd then [Rewind] else []) @
   [WriteBytes (take (if sameFd \<and> padValue cfg = UNSPECIFIED then 0x150 else length r) r)] @
   (case romx of None \<Rightarrow> [] | Some x \<Rightarrow> [WriteBytes (take (length file - BANK_SIZE) x)]) @
   (if padValue cfg \<noteq> UNSPECIFIED then
      (if sameFd then [SeekEnd] else []) @ writePadding (padLen cfg file) (of_nat (padValue cfg))
    else [])"
  by (simp add: writeBack_def padLen_def)

lemma fold_writePadding:
  "fst (fold runIO (writePadding len v) (d, length d)) = d @ replicate len v"
  by (simp add: writePadding_run)

lemma fixedImage_eq:
  assumes ok: "config_ok cfg" and acc: "accepted sameFd file"
  shows "fixedImage cfg sameFd file =
     rom0Final cfg sameFd file @ drop BANK_SIZE file @
     replicate (padLen cfg file) (of_nat (padValue cfg))"
proof -
  let ?r = "rom0Final cfg sameFd file"
  let ?pv = "of_nat (padValue cfg) :: byte"
  let ?romx = "if \<not> sameFd \<and> BANK_SIZE \<le> length file then Some (drop BANK_SIZE file) else None"
  from acc have len: "0x150 \<le> length file" by (simp add: accepted_def)
  note bs = BANK_SIZE_gt
  have img: "fixedImage cfg sameFd file =
      fst (fold runIO
        (writeBack cfg sameFd ?r ?romx
          (if padValue cfg \<noteq> UNSPECIFIED then padTarget (banks (length file))
           else banks (length file))
          (length file - BANK_SIZE))
        (if sameFd then file else [], 0))"
    by (simp add: fixedImage_def processFile_accepted [OF acc] initState_def outputImage_def)
  define d where "d = ?r @ drop BANK_SIZE file"
  have pad: "fst (fold runIO (writePadding (padLen cfg file) ?pv) (d, length d)) =
      d @ replicate (padLen cfg file) ?pv"
    by (rule fold_writePadding)
  have first: "fold runIO
      ((if sameFd then [Rewind] else []) @
       [WriteBytes (take (if sameFd \<and> padValue cfg = UNSPECIFIED then 0x150 else length ?r) ?r)] @
       (case ?romx of None \<Rightarrow> [] | Some x \<Rightarrow> [WriteBytes (take (length file - BANK_SIZE) x)]))
      (if sameFd then file else [], 0) =
    (d, if sameFd then (if padValue cfg = UNSPECIFIED then 0x150 else BANK_SIZE) else length d)"
  proof (cases sameFd)
    case True
    show ?thesis
    proof (cases "padValue cfg = UNSPECIFIED")
      case nopad: True
      have lr: "0x150 \<le> length ?r"
        using len nopad bs by (simp add: length_rom0Final)
      have "?r = take 0x150 ?r @ drop 0x150 (take BANK_SIZE file)"
        using drop_rom0Final_nopad [OF ok nopad]
        by (metis append_take_drop_id)
      moreover have "drop 0x150 file = drop 0x150 (take BANK_SIZE file) @ drop BANK_SIZE file"
      proof -
        have "drop 0x150 file = drop 0x150 (take BANK_SIZE file @ drop BANK_SIZE file)"
          by simp
        also have "\<dots> = drop 0x150 (take BANK_SIZE file) @ drop BANK_SIZE file"
          using len bs by (simp del: append_take_drop_id)
        finally show ?thesis .
      qed
      ultimately have "take 0x150 ?r @ drop 0x150 file = d"
        unfolding d_def by (metis append.assoc)
      with True nopad lr show ?thesis
        by (simp add: min_absorb2)
    next
      case pad: False
      have lr: "length ?r = BANK_SIZE"
        using pad by (simp add: length_rom0Final)
      from True pad lr show ?thesis
        unfolding d_def by simp
    qed
  next
    case pipe: False
    show ?thesis
    proof (cases "BANK_SIZE \<le> length file")
      case True
      with pipe show ?thesis
        unfolding d_def by simp
    next
      case False
      with pipe show ?thesis
        unfolding d_def by simp
    qed
  qed
  show ?thesis
  proof (cases "padValue cfg = UNSPECIFIED")
    case True
    then show ?thesis
      unfolding img writeBack_padLen using first
      by (simp add: d_def)
  next
    case False
    have ops: "writeBack cfg sameFd ?r ?romx
          (if padValue cfg \<noteq> UNSPECIFIED then padTarget (banks (length file))
           else banks (length file))
          (length file - BANK_SIZE) =
       ((if sameFd then [Rewind] else []) @
       [WriteBytes (take (if sameFd \<and> padValue cfg = UNSPECIFIED then 0x150 else length ?r) ?r)] @
       (case ?romx of None \<Rightarrow> [] | Some x \<Rightarrow> [WriteBytes (take (length file - BANK_SIZE) x)])) @
       ((if sameFd then [SeekEnd] else []) @ writePadding (padLen cfg file) ?pv)"
      using False by (subst writeBack_padLen) simp
    have "fold runIO ((if sameFd then [SeekEnd] else []) @ writePadding (padLen cfg file) ?pv)
        (d, if sameFd then (if padValue cfg = UNSPECIFIED then 0x150 else BANK_SIZE) else length d) =
        fold runIO (writePadding (padLen cfg file) ?pv) (d, length d)"
      by simp
    with pad first False show ?thesis
      unfolding img ops fold_append o_apply
      by (simp add: d_def)
  qed
qed

lemma banks_ge: "n \<le> banks n * BANK_SIZE"
proof -
  have "n + (BANK_SIZE - 1) < (n + (BANK_SIZE - 1)) div BANK_SIZE * BANK_SIZE + BANK_SIZE"
    using BANK_SIZE_gt(2) div_mult_mod_eq [of "n + (BANK_SIZE - 1)" BANK_SIZE]
      mod_less_divisor [of BANK_SIZE "n + (BANK_SIZE - 1)"] by linarith
  then show ?thesis
    using BANK_SIZE_gt(2) by (simp add: banks_def)
qed

lemma mayChange_lt:
  assumes "config_ok cfg" "mayChange cfg i"
  shows "i < 0x150"
proof -
  from assms(1) have "optLen (title cfg) \<le> 16" "optLen (gameID cfg) \<le> 4"
    "optLen (newLicensee cfg) \<le> 2"
    by (simp_all add: config_ok_def)
  with assms(2) show ?thesis
    unfolding mayChange_def by (elim disjE conjE) simp_all
qed

lemma fold_headerSum:
  "fold (\<lambda>i sum. sum - (r ! i + 1)) is (acc :: byte) =
     acc - of_int (\<Sum>i\<leftarrow>is. uint (r ! i) + 1)"
  by (induction "is" arbitrary: acc) (simp_all add: algebra_simps)

lemma headerSum_spec: "headerSum r = headerChecksumSpec r"
  by (simp only: headerSum_def headerChecksumSpec_def fold_headerSum) simp

lemma headerChecksumSpec_cong:
  assumes "\<And>i. 0x134 \<le> i \<Longrightarrow> i < 0x14d \<Longrightarrow> a ! i = b ! i"
  shows "headerChecksumSpec a = headerChecksumSpec b"
proof -
  have "map (\<lambda>i. uint (a ! i) + 1) [0x134..<0x14d] = map (\<lambda>i. uint (b ! i) + 1) [0x134..<0x14d]"
  proof (rule map_cong [OF refl])
    fix x :: nat
    assume "x \<in> set [0x134..<0x14d]"
    then have "0x134 \<le> x" "x < 0x14d"
      by (simp_all only: set_upt atLeastLessThan_iff)
    then show "uint (a ! x) + 1 = uint (b ! x) + 1"
      by (simp only: assms)
  qed
  then show ?thesis
    by (simp only: headerChecksumSpec_def)
qed

lemma addBytes_sum_list: "addBytes xs 0 = of_nat (sum_list (map unat xs))"
proof (induction xs)
  case Nil
  then show ?case by simp
next
  case (Cons x xs)
  have "addBytes (x # xs) 0 = addBytes xs (ucast x + 0)"
    by (simp add: addBytes_def)
  also have "\<dots> = ucast x + addBytes xs 0"
    by (rule addBytes_shift)
  finally show ?case
    by (simp add: Cons.IH)
qed

lemma ucast_of_nat_byte:
  "n < 256 \<Longrightarrow> (ucast (of_nat n :: byte) :: 16 word) = of_nat n"
  by (simp add: unsigned_of_nat take_bit_nat_eq_self)

lemma split_16: 
  "push_bit 8 (ucast (ucast (drop_bit 8 g) :: byte) :: 16 word) OR ucast (ucast (g AND 0xff) :: byte) = (g :: 16 word)"
proof -
  have m: "g AND 0xff = take_bit 8 g"
    by (simp add: take_bit_eq_mask mask_eq_exp_minus_1)
  show ?thesis
    unfolding m
  proof (rule bit_word_eqI)
    fix n
    assume "n < LENGTH(16)"
    then show "bit (push_bit 8 (ucast (ucast (drop_bit 8 g) :: byte) :: 16 word) OR
        ucast (ucast (take_bit 8 g) :: byte)) n \<longleftrightarrow> bit g n"
      by (cases "8 \<le> n") (auto simp add: bit_simps)
  qed
qed

subsection \<open>Images that are too short\<close>

lemma config_ok_default: "config_ok defaultConfig"
  by (simp add: config_ok_def defaultConfig_def optLen_def)

lemma accepted_336: "accepted sameFd (replicate 336 (0::byte))"
proof -
  have "banks 336 = 1"
    by (rule banks_small) (simp_all add: BANK_SIZE_def)
  then show ?thesis
    by (simp add: accepted_def BANK_SIZE_def)
qed

text \<open>
  C8: an image of fewer than 336 (0x150) bytes is rejected with the too-short report and
  nothing is done to the output: \<^verbatim>\<open>processFile\<close> returns before the header edits, with
  the list of output operations unchanged (an empty regular file fails the first
  \<^verbatim>\<open>assert\<close> instead, and \<^verbatim>\<open>processFilename\<close> never passes one), and
  \<^verbatim>\<open>processFilename\<close> reports the same for a regular file and for the standard input,
  and returns failure.
\<close>

theorem processFile_too_short:
  assumes "length file < 0x150"
  shows "outOps (processFile cfg sameFd file st) = outOps st \<and>
         (if sameFd \<and> file = [] then processFile cfg sameFd file st = st\<lparr>aborted := True\<rparr>
          else processFile cfg sameFd file st = report (TooShort (length file)) st) \<and>
         snd (processFilename cfg (Regular file) st) =
           report (TooShort (length file)) (st\<lparr>nbErrors := 0\<rparr>) \<and>
         snd (processFilename cfg (Stdin file) st) =
           report (TooShort (length file)) (st\<lparr>nbErrors := 0\<rparr>) \<and>
         fst (processFilename cfg (Regular file) st) \<and> fst (processFilename cfg (Stdin file) st)"
proof -
  have pf: "outOps (processFile cfg sameFd file st) = outOps st \<and>
         (if sameFd \<and> file = [] then processFile cfg sameFd file st = st\<lparr>aborted := True\<rparr>
          else processFile cfg sameFd file st = report (TooShort (length file)) st)" for sameFd st
    using assms BANK_SIZE_gt by (simp add: processFile_def Let_def)
  have nz: "nbErrors (report (TooShort (length file)) (st\<lparr>nbErrors := 0\<rparr>)) \<noteq> 0"
    by (rule nbErrors_report_nonzero)
  have std: "processFile cfg False file (st\<lparr>nbErrors := 0\<rparr>) =
      report (TooShort (length file)) (st\<lparr>nbErrors := 0\<rparr>)"
    using pf [of False "st\<lparr>nbErrors := 0\<rparr>"] by simp
  have regular: "snd (processFilename cfg (Regular file) st) =
      report (TooShort (length file)) (st\<lparr>nbErrors := 0\<rparr>) \<and>
      fst (processFilename cfg (Regular file) st)"
    using assms nz by (simp add: processFilename_def Let_def del: report_simps)
  have stdin: "snd (processFilename cfg (Stdin file) st) =
      report (TooShort (length file)) (st\<lparr>nbErrors := 0\<rparr>) \<and>
      fst (processFilename cfg (Stdin file) st)"
    using std nz by (simp add: processFilename_def Let_def del: report_simps)
  from pf [of sameFd st] regular stdin show ?thesis
    by blast
qed

theorem processFile_too_short_witness:
  "length (replicate 335 (0::byte)) < 0x150 \<and>
   outOps (processFile defaultConfig True (replicate 335 0) initState) = [] \<and>
   outOps (processFile defaultConfig False (replicate 335 0) initState) = [] \<and>
   stderr (processFile defaultConfig True (replicate 335 0) initState) = [TooShort 335] \<and>
   stderr (processFile defaultConfig False (replicate 335 0) initState) = [TooShort 335] \<and>
   outputImage False (replicate 335 0)
     (outOps (processFile defaultConfig False (replicate 335 0) initState)) = [] \<and>
   fst (processFilename defaultConfig (Regular (replicate 335 0)) initState)"
  using processFile_too_short [of "replicate 335 0" defaultConfig True initState]
    processFile_too_short [of "replicate 335 0" defaultConfig False initState]
  by (simp add: initState_def outputImage_def)

subsection \<open>The cap on the number of banks\<close>

text \<open>
  C4 (as the code behaves): a regular file of exactly 65536 banks (65536 \<times> 16 KiB
  bytes) is rejected on the path with equal descriptors, because the test there is
  \<^verbatim>\<open>fileSize >= 0x10000 * BANK_SIZE\<close>: the report is "has more than 65536 banks" and
  nothing is written.  The same bytes read from a pipe are accepted.  (By
  \<open>succeeds_iff\<close> a file is accepted exactly when it holds at least 0x150 bytes and, with
  equal descriptors, fewer than 65536 \<times> 16 KiB bytes; from a pipe, at most 65536
  banks.)
\<close>

theorem processFile_seekable_65536_banks:
  assumes "length file = 0x10000 * BANK_SIZE"
  shows "processFile cfg True file st = report TooManyBanks st \<and>
         outOps (processFile cfg True file st) = outOps st \<and>
         banks (length file) = 0x10000 \<and>
         \<not> succeeds cfg True file \<and> succeeds cfg False file"
proof -
  have acc: "\<not> accepted True file"
    using assms by (simp add: accepted_def)
  have ne: "\<not> length file < 0x150" "file \<noteq> []"
    using assms BANK_SIZE_gt by auto
  have "(0x10000 * BANK_SIZE + (BANK_SIZE - 1)) div BANK_SIZE =
      0x10000 + (BANK_SIZE - 1) div BANK_SIZE"
    using BANK_SIZE_gt(2) by (intro div_mult_self3) simp
  then have b: "banks (length file) = 0x10000"
    using BANK_SIZE_gt(2) by (simp only: banks_def assms) simp
  have "accepted False file"
    using ne b by (simp add: accepted_def)
  with processFile_rejected [OF acc, of cfg st] ne acc b show ?thesis
    by (simp add: succeeds_iff)
qed

theorem processFile_seekable_65536_banks_witness:
  "length (replicate (0x10000 * BANK_SIZE) (0::byte)) = 0x10000 * BANK_SIZE \<and>
   processFile defaultConfig True (replicate (0x10000 * BANK_SIZE) 0) initState =
     report TooManyBanks initState \<and>
   succeeds defaultConfig False (replicate (0x10000 * BANK_SIZE) 0)"
  using processFile_seekable_65536_banks [of "replicate (0x10000 * BANK_SIZE) 0" defaultConfig initState]
  by simp

subsection \<open>The error counter\<close>

lemma processFile_stderr_cases:
  "processFile cfg sameFd file st = st\<lparr>aborted := True\<rparr> \<or>
   (\<exists>msg. processFile cfg sameFd file st = report msg st) \<or>
   (\<exists>ops. processFile cfg sameFd file st = st\<lparr>outOps := ops\<rparr>)"
proof (cases "accepted sameFd file")
  case True
  from processFile_accepted [OF True, of cfg st] show ?thesis
    by blast
next
  case False
  from processFile_rejected [OF False, of cfg st] show ?thesis
    by (auto split: if_splits)
qed

text \<open>
  C10: \<^verbatim>\<open>report\<close> never leaves the counter at zero, since it stops counting at 255
  instead of wrapping: after any list of reports from zero the counter is the number of
  reports, or 255 if there were more.  So \<^verbatim>\<open>processFilename\<close>, which returns whether the
  counter is non-zero, returns failure exactly when something was reported for the image.
\<close>

theorem processFilename_fails_iff_reported:
  "nbErrors (report msg st) \<noteq> 0 \<and>
   unat (nbErrors (fold report msgs (st\<lparr>nbErrors := 0\<rparr>))) = min 255 (length msgs) \<and>
   (fst (processFilename cfg name st) \<longleftrightarrow> stderr (snd (processFilename cfg name st)) \<noteq> stderr st)"
proof -
  let ?st = "st\<lparr>nbErrors := 0\<rparr>"
  have rep: "nbErrors (report m ?st) \<noteq> 0 \<and> stderr (report m ?st) \<noteq> stderr st" for m
    using nbErrors_report_nonzero [of m ?st] by (simp del: report_simps(4))
  have pf: "(nbErrors (processFile cfg sameFd f ?st) \<noteq> 0) \<longleftrightarrow>
      (stderr (processFile cfg sameFd f ?st) \<noteq> stderr st)" for sameFd f
    using processFile_stderr_cases [of cfg sameFd f ?st] rep
    by (elim disjE exE) (simp_all del: report_simps(4))
  have main: "fst (processFilename cfg name st) \<longleftrightarrow>
      stderr (snd (processFilename cfg name st)) \<noteq> stderr st"
    using rep pf
    by (cases name) (simp_all add: processFilename_def Let_def del: report_simps(4))
  have "unat (nbErrors (fold report msgs ?st)) = min 255 (length msgs)"
    using unat_nbErrors_fold_report [of msgs ?st] by simp
  with main nbErrors_report_nonzero [of msg st] show ?thesis
    by (simp del: report_simps(4))
qed

end
